theory Spec2Isabelle
  imports Complex_Main
begin

section \<open>Data model\<close>

text \<open>
  The development follows \<^verbatim>\<open>ThreeCaptcha\<close> (the component with the fixed-rate recorder,
  the replayer, the CSV export and the Gemini adapter). A JavaScript \<^verbatim>\<open>number\<close> is a
  \<^typ>\<open>real\<close>; the frame counter, which only ever holds \<^verbatim>\<open>0\<close> and its successors, is a
  \<^typ>\<open>nat\<close>. The fields \<^verbatim>\<open>x\<close>, \<^verbatim>\<open>y\<close>, \<^verbatim>\<open>z\<close>, \<^verbatim>\<open>w\<close> of vectors and quaternions are
  prefixed, since a record field is a constant of the theory.
\<close>

record vec3 =
  vx :: real
  vy :: real
  vz :: real

record quat =
  qx :: real
  qy :: real
  qz :: real
  qw :: real

text \<open>
  \<^verbatim>\<open>class RobotArm\<close>: \<^verbatim>\<open>this.position\<close> is the very object \<^verbatim>\<open>this.cylinder.position\<close>,
  so one field stands for both; the rigid body may be \<^verbatim>\<open>null\<close>.
\<close>

record robot_arm =
  arm_position :: vec3
  arm_body :: "vec3 option"

text \<open>An entry of \<^verbatim>\<open>objectsRef.current\<close>: a mesh and its rigid body.\<close>

record scene_object =
  mesh_position :: vec3
  mesh_quaternion :: quat
  body_translation :: vec3
  body_rotation :: quat

text \<open>The element type of \<^verbatim>\<open>recordingDataRef.current\<close>.\<close>

record object_state =
  position :: vec3
  rotation :: quat

record frame =
  timestamp :: real
  robotArm :: vec3
  objects :: "object_state list"

text \<open>
  The component's state: the React state variables, the refs that mirror them for the
  animation loop, the trajectory buffer and the scene. \<^verbatim>\<open>recordingIntervalRef\<close> only
  records whether a timer handle is stored; \<^verbatim>\<open>worldRef\<close> whether the physics world exists.
\<close>

record captcha =
  isRecording :: bool
  isReplaying :: bool
  hasRecording :: bool
  isRecordingRef :: bool
  isReplayingRef :: bool
  recordingData :: "frame list"
  recordingStartTime :: real
  replayStartTime :: real
  recordingInterval :: bool
  frameCount :: nat
  robotArmRef :: "robot_arm option"
  objectsRef :: "scene_object list"
  worldRef :: bool
  isMounted :: bool
  lastTime :: real

definition ROBOT_ARM_Y :: real where
  "ROBOT_ARM_Y = 3 / 10"

section \<open>Coordinate normalizer\<close>

text \<open>
  \<^verbatim>\<open>normalizeCoordinates(x, y, z)\<close> returns \<^verbatim>\<open>{x, y}\<close> and
  \<^verbatim>\<open>denormalizeCoordinates(normalizedX, normalizedY)\<close> returns \<^verbatim>\<open>{x, z}\<close>; both are
  pairs here. This is the arithmetic of the source read over the real numbers.
\<close>

definition normalizeCoordinates :: "real \<Rightarrow> real \<Rightarrow> real \<Rightarrow> real \<times> real" where
  "normalizeCoordinates x y z =
     (let normalizedX = 2 / 10 + ((x + 3) / 6) * (4 / 10 - 2 / 10);
          normalizedY = - (2 / 10) + ((z + 3) / 6) * (2 / 10 - (- (2 / 10)))
      in (max (2 / 10) (min (4 / 10) normalizedX),
          max (- (2 / 10)) (min (2 / 10) normalizedY)))"

definition denormalizeCoordinates :: "real \<Rightarrow> real \<Rightarrow> real \<times> real" where
  "denormalizeCoordinates normalizedX normalizedY =
     (let threeX = ((normalizedX - 2 / 10) / (4 / 10 - 2 / 10)) * 6 - 3;
          threeZ = ((normalizedY - (- (2 / 10))) / (2 / 10 - (- (2 / 10)))) * 6 - 3
      in (threeX, threeZ))"

section \<open>Recording and replay controls\<close>

text \<open>
  \<^verbatim>\<open>startRecording\<close> reads the clock once (\<open>now\<close>). Console output is not modelled.
\<close>

definition startRecording :: "real \<Rightarrow> captcha \<Rightarrow> captcha" where
  "startRecording now s =
     (if isReplaying s then s
      else s\<lparr>recordingData := [], frameCount := 0, recordingStartTime := now,
              isRecording := True, isRecordingRef := True, recordingInterval := True\<rparr>)"

definition stopRecording :: "captcha \<Rightarrow> captcha" where
  "stopRecording s =
     (let s1 = s\<lparr>isRecording := False, isRecordingRef := False, recordingInterval := False\<rparr>;
          frameCnt = length (recordingData s1)
      in if frameCnt > 0 then s1\<lparr>hasRecording := True\<rparr> else s1\<lparr>hasRecording := False\<rparr>)"

definition startReplay :: "real \<Rightarrow> captcha \<Rightarrow> captcha" where
  "startReplay now s =
     (if \<not> hasRecording s \<or> isRecording s then s
      else s\<lparr>replayStartTime := now, isReplaying := True, isReplayingRef := True\<rparr>)"

definition stopReplay :: "captcha \<Rightarrow> captcha" where
  "stopReplay s = s\<lparr>isReplaying := False, isReplayingRef := False\<rparr>"

section \<open>Fixed-rate recorder\<close>

text \<open>
  \<^verbatim>\<open>recordFixedFrame\<close>. The guard \<^verbatim>\<open>!objectsRef.current\<close> never fires, an array being
  truthy, so only the robot arm's absence makes the call return early.
\<close>

definition objectState :: "scene_object \<Rightarrow> object_state" where
  "objectState obj =
     (let normalizedObjPos =
            normalizeCoordinates (vx (mesh_position obj)) (vy (mesh_position obj))
              (vz (mesh_position obj))
      in \<lparr>position = \<lparr>vx = fst normalizedObjPos, vy = snd normalizedObjPos, vz = 76 / 100\<rparr>,
          rotation = \<lparr>qx = qx (mesh_quaternion obj), qy = qz (mesh_quaternion obj),
                      qz = qy (mesh_quaternion obj), qw = qw (mesh_quaternion obj)\<rparr>\<rparr>)"

definition recordFixedFrame :: "captcha \<Rightarrow> captcha" where
  "recordFixedFrame s =
     (case robotArmRef s of
        None \<Rightarrow> s
      | Some arm \<Rightarrow>
          (let fixedTimestamp = real (frameCount s) * (1000 / 10);
               robotPos = arm_position arm;
               normalizedRobotPos = normalizeCoordinates (vx robotPos) (vy robotPos) (vz robotPos);
               objectStates = map objectState (objectsRef s)
           in s\<lparr>recordingData := recordingData s @
                    [\<lparr>timestamp = fixedTimestamp,
                      robotArm = \<lparr>vx = fst normalizedRobotPos, vy = snd normalizedRobotPos,
                                  vz = 76 / 100\<rparr>,
                      objects = objectStates\<rparr>],
                  frameCount := frameCount s + 1\<rparr>))"

text \<open>The callback that \<^verbatim>\<open>startRecording\<close> hands to \<^verbatim>\<open>setInterval\<close>.\<close>

definition intervalCallback :: "captcha \<Rightarrow> captcha" where
  "intervalCallback s = (if isRecordingRef s then recordFixedFrame s else s)"

section \<open>Replayer\<close>

text \<open>\<^verbatim>\<open>RobotArm.setPosition\<close>.\<close>

definition setPosition :: "vec3 \<Rightarrow> robot_arm \<Rightarrow> robot_arm" where
  "setPosition p arm =
     arm\<lparr>arm_position := p, arm_body := (case arm_body arm of None \<Rightarrow> None | Some _ \<Rightarrow> Some p)\<rparr>"

text \<open>The body of the \<^verbatim>\<open>forEach\<close> of \<^verbatim>\<open>replayFrame\<close>, for one object that exists.\<close>

definition imposeObject :: "object_state \<Rightarrow> scene_object \<Rightarrow> scene_object" where
  "imposeObject objState obj =
     (let objThreePos = denormalizeCoordinates (vx (position objState)) (vy (position objState));
          actualHeight = 375 / 1000;
          p = \<lparr>vx = fst objThreePos, vy = actualHeight, vz = snd objThreePos\<rparr>;
          q = \<lparr>qx = qx (rotation objState), qy = qz (rotation objState),
               qz = qy (rotation objState), qw = qw (rotation objState)\<rparr>
      in obj\<lparr>mesh_position := p, mesh_quaternion := q, body_translation := p, body_rotation := q\<rparr>)"

text \<open>
  \<^verbatim>\<open>frame.objects.forEach((objState, index) => { if (objectsRef.current[index]) ... })\<close>:
  the states are matched to the objects by index; an object with no state is left alone
  and a state with no object is skipped.
\<close>

fun imposeObjects :: "object_state list \<Rightarrow> scene_object list \<Rightarrow> scene_object list" where
  "imposeObjects (objState # sts) (obj # objs) = imposeObject objState obj # imposeObjects sts objs"
| "imposeObjects sts objs = objs"

definition imposeFrame :: "frame \<Rightarrow> captcha \<Rightarrow> captcha" where
  "imposeFrame fr s =
     (let robotArmThreePos = denormalizeCoordinates (vx (robotArm fr)) (vy (robotArm fr))
      in s\<lparr>robotArmRef :=
              map_option
                (setPosition \<lparr>vx = fst robotArmThreePos, vy = ROBOT_ARM_Y, vz = snd robotArmThreePos\<rparr>)
                (robotArmRef s),
            objectsRef := imposeObjects (objects fr) (objectsRef s)\<rparr>)"

text \<open>
  What one animation tick does to the scene, in order. \<open>PoseImposed\<close> carries the frame
  whose pose the replayer wrote; \<open>ReplayStopped\<close> is the replayer's own call of
  \<^verbatim>\<open>stopReplay\<close>.
\<close>

datatype effect = PhysicsStep | VisualSync | PoseImposed frame | ReplayStopped | Render

text \<open>
  \<^verbatim>\<open>replayFrame\<close> reads the clock itself (\<open>now\<close>). \<^verbatim>\<open>Array.prototype.find\<close> is
  \<^const>\<open>find\<close>. With an empty buffer the last timestamp is \<^verbatim>\<open>undefined\<close> and the
  comparison \<^verbatim>\<open>currentTime > undefined\<close> is false.
\<close>

definition replayFrame :: "real \<Rightarrow> captcha \<Rightarrow> captcha \<times> effect list" where
  "replayFrame now s =
     (if \<not> isReplayingRef s \<or> robotArmRef s = None then (s, [])
      else
        (let currentTime = now - replayStartTime s
         in case find (\<lambda>f. timestamp f \<ge> currentTime) (recordingData s) of
              Some fr \<Rightarrow> (imposeFrame fr s, [PoseImposed fr])
            | None \<Rightarrow>
                (if recordingData s \<noteq> [] \<and> currentTime > timestamp (last (recordingData s))
                 then (stopReplay s, [ReplayStopped])
                 else (s, []))))"

section \<open>Animation loop\<close>

text \<open>
  The physics engine is not part of the repository: \<open>step\<close> stands for
  \<^verbatim>\<open>world.step()\<close>, which moves the rigid bodies. The visual sync copies each body's pose
  to its mesh. \<open>now\<close> is the clock read by \<^verbatim>\<open>animate\<close>, \<open>now'\<close> the one read by
  \<^verbatim>\<open>replayFrame\<close>. The legacy \<^verbatim>\<open>recordFrame\<close> does nothing.
\<close>

type_synonym physics = "robot_arm option \<Rightarrow> scene_object list \<Rightarrow> scene_object list"

definition syncMesh :: "scene_object \<Rightarrow> scene_object" where
  "syncMesh obj = obj\<lparr>mesh_position := body_translation obj, mesh_quaternion := body_rotation obj\<rparr>"

definition animate :: "physics \<Rightarrow> real \<Rightarrow> real \<Rightarrow> captcha \<Rightarrow> captcha \<times> effect list" where
  "animate step now now' s =
     (if \<not> isMounted s then (s, [])
      else
        (let s1 = s\<lparr>lastTime := now\<rparr>;
             (s2, e1) = (if worldRef s1 \<and> \<not> isReplayingRef s1
                         then (s1\<lparr>objectsRef := step (robotArmRef s1) (objectsRef s1)\<rparr>, [PhysicsStep])
                         else (s1, []));
             (s3, e2) = (if isReplayingRef s2 then replayFrame now' s2
                         else (s2\<lparr>objectsRef := map syncMesh (objectsRef s2)\<rparr>, [VisualSync]))
         in (s3, e1 @ e2 @ [Render])))"

section \<open>The component as a machine\<close>

text \<open>
  The things that happen to the component after the scene is set up: the buttons, the
  recording timer, the animation frame and the pointer dragging the robot arm over the
  ground plane.
\<close>

datatype event =
  StartRecording real
  | StopRecording
  | StartReplay real
  | StopReplay
  | IntervalTick
  | Animate real real
  | Pointer real real

definition pointer :: "real \<Rightarrow> real \<Rightarrow> captcha \<Rightarrow> captcha" where
  "pointer ix iz s =
     s\<lparr>robotArmRef := map_option (setPosition \<lparr>vx = ix, vy = ROBOT_ARM_Y, vz = iz\<rparr>) (robotArmRef s)\<rparr>"

fun exec :: "physics \<Rightarrow> event \<Rightarrow> captcha \<Rightarrow> captcha \<times> effect list" where
  "exec step (StartRecording now) s = (startRecording now s, [])"
| "exec step StopRecording s = (stopRecording s, [])"
| "exec step (StartReplay now) s = (startReplay now s, [])"
| "exec step StopReplay s = (stopReplay s, [])"
| "exec step IntervalTick s = (intervalCallback s, [])"
| "exec step (Animate now now') s = animate step now now' s"
| "exec step (Pointer ix iz) s = (pointer ix iz s, [])"

fun run :: "physics \<Rightarrow> event list \<Rightarrow> captcha \<Rightarrow> captcha \<times> effect list" where
  "run step [] s = (s, [])"
| "run step (ev # evs) s =
     (let (s1, e1) = exec step ev s; (s2, e2) = run step evs s1 in (s2, e1 @ e2))"

section \<open>Coordinate normalizer in floating point\<close>

text \<open>
  The same two functions with every arithmetic operation and every decimal literal rounded
  by \<open>rnd\<close>, in the order in which JavaScript evaluates them. The integer literals
  \<^verbatim>\<open>3\<close> and \<^verbatim>\<open>6\<close> are exact, as are negation, \<^verbatim>\<open>Math.max\<close> and \<^verbatim>\<open>Math.min\<close>.
  With the identity for \<open>rnd\<close> these are the functions above.
\<close>

definition normalizeCoordinates_fl :: "(real \<Rightarrow> real) \<Rightarrow> real \<Rightarrow> real \<Rightarrow> real \<Rightarrow> real \<times> real" where
  "normalizeCoordinates_fl rnd x y z =
     (let normalizedX =
            rnd (rnd (2 / 10) + rnd (rnd (rnd (x + 3) / 6) * rnd (rnd (4 / 10) - rnd (2 / 10))));
          normalizedY =
            rnd (- rnd (2 / 10) +
                 rnd (rnd (rnd (z + 3) / 6) * rnd (rnd (2 / 10) - (- rnd (2 / 10)))))
      in (max (rnd (2 / 10)) (min (rnd (4 / 10)) normalizedX),
          max (- rnd (2 / 10)) (min (rnd (2 / 10)) normalizedY)))"

definition denormalizeCoordinates_fl :: "(real \<Rightarrow> real) \<Rightarrow> real \<Rightarrow> real \<Rightarrow> real \<times> real" where
  "denormalizeCoordinates_fl rnd normalizedX normalizedY =
     (let threeX =
            rnd (rnd (rnd (rnd (normalizedX - rnd (2 / 10)) / rnd (rnd (4 / 10) - rnd (2 / 10))) * 6) - 3);
          threeZ =
            rnd (rnd (rnd (rnd (normalizedY - (- rnd (2 / 10))) /
                           rnd (rnd (2 / 10) - (- rnd (2 / 10)))) * 6) - 3)
      in (threeX, threeZ))"

text \<open>
  What is used of the rounding: a result of magnitude at most 16 is off by at most
  \<open>2\<^sup>-\<^sup>5\<^sup>0\<close>. Rounding to the nearest binary64 number satisfies this (half a unit in
  the last place of a number below 16 is at most \<open>2\<^sup>-\<^sup>5\<^sup>0\<close>), and so does exact
  arithmetic.
\<close>

definition rounds_within :: "(real \<Rightarrow> real) \<Rightarrow> bool" where
  "rounds_within rnd = (\<forall>r. \<bar>r\<bar> \<le> 16 \<longrightarrow> \<bar>rnd r - r\<bar> \<le> 1 / 2 ^ 50)"

text \<open>A rounding for the examples: to the nearest multiple of \<open>2\<^sup>-\<^sup>5\<^sup>2\<close>.\<close>

definition rnd52 :: "real \<Rightarrow> real" where
  "rnd52 r = real_of_int \<lfloor>r * 2 ^ 52 + 1 / 2\<rfloor> / 2 ^ 52"

section \<open>CSV export\<close>

text \<open>Decimal digits of a natural number, as \<^verbatim>\<open>${i + 1}\<close> prints them.\<close>

definition digitChar :: "nat \<Rightarrow> char" where
  "digitChar d = ''0123456789'' ! d"

fun digitsOf :: "nat \<Rightarrow> string" where
  "digitsOf n = (if n < 10 then [digitChar n] else digitsOf (n div 10) @ [digitChar (n mod 10)])"

declare digitsOf.simps [simp del]

text \<open>
  \<^verbatim>\<open>Number.prototype.toFixed(f)\<close> as ECMAScript defines it: the sign is split off, the
  magnitude is rounded to the nearest multiple of \<open>10\<^sup>-\<^sup>f\<close> (the larger one on a tie),
  and the digits are padded with zeros so that one digit at least stands before the point.
  From \<open>10\<^sup>2\<^sup>1\<close> on, \<^verbatim>\<open>toFixed\<close> gives the exponent notation of \<^verbatim>\<open>Number::toString\<close>,
  which is the parameter \<open>numberToString\<close>.
\<close>

definition toFixed :: "(real \<Rightarrow> string) \<Rightarrow> nat \<Rightarrow> real \<Rightarrow> string" where
  "toFixed numberToString f x0 =
     (let s = (if x0 < 0 then ''-'' else []);
          x = (if x0 < 0 then - x0 else x0)
      in if x \<ge> 10 ^ 21 then s @ numberToString x
         else
           (let n = nat \<lfloor>x * 10 ^ f + 1 / 2\<rfloor>;
                m = digitsOf n
            in if f \<noteq> 0
               then (let m' = replicate (f + 1 - length m) (CHR ''0'') @ m;
                         k = length m'
                     in s @ take (k - f) m' @ ''.'' @ drop (k - f) m')
               else s @ m))"

text \<open>\<^verbatim>\<open>Array.prototype.join\<close>.\<close>

fun join :: "string \<Rightarrow> string list \<Rightarrow> string" where
  "join sep [] = []"
| "join sep [x] = x"
| "join sep (x # y # ys) = x @ sep @ join sep (y # ys)"

definition objectHeader :: "nat \<Rightarrow> string" where
  "objectHeader i =
     '',Object'' @ digitsOf (i + 1) @ ''_Pos_X,Object'' @ digitsOf (i + 1) @ ''_Pos_Y,Object'' @
       digitsOf (i + 1) @ ''_Pos_Z'' @
     '',Object'' @ digitsOf (i + 1) @ ''_Rot_X,Object'' @ digitsOf (i + 1) @ ''_Rot_Y,Object'' @
       digitsOf (i + 1) @ ''_Rot_Z,Object'' @ digitsOf (i + 1) @ ''_Rot_W''"

definition csvHeader :: "nat \<Rightarrow> string" where
  "csvHeader objectCount =
     foldl (\<lambda>h i. h @ objectHeader i) ''Timestamp,RobotArm_X,RobotArm_Y,RobotArm_Z'' [0..<objectCount]"

definition objectFields :: "(real \<Rightarrow> string) \<Rightarrow> object_state \<Rightarrow> string" where
  "objectFields nts obj =
     '','' @ toFixed nts 6 (vx (position obj)) @ '','' @ toFixed nts 6 (vy (position obj)) @ '','' @
       toFixed nts 6 (vz (position obj)) @
     '','' @ toFixed nts 6 (qx (rotation obj)) @ '','' @ toFixed nts 6 (qy (rotation obj)) @ '','' @
       toFixed nts 6 (qz (rotation obj)) @ '','' @ toFixed nts 6 (qw (rotation obj))"

definition csvRow :: "(real \<Rightarrow> string) \<Rightarrow> frame \<Rightarrow> string" where
  "csvRow nts fr =
     foldl (\<lambda>row obj. row @ objectFields nts obj)
       (toFixed nts 3 (timestamp fr) @ '','' @ toFixed nts 6 (vx (robotArm fr)) @ '','' @
        toFixed nts 6 (vy (robotArm fr)) @ '','' @ toFixed nts 6 (vz (robotArm fr)))
       (objects fr)"

text \<open>
  \<^verbatim>\<open>saveRecordingAsCSV\<close>: \<open>None\<close> is the alert and the early return, \<open>Some\<close> the content
  of the file offered for download.
\<close>

definition saveRecordingAsCSV :: "(real \<Rightarrow> string) \<Rightarrow> captcha \<Rightarrow> string option" where
  "saveRecordingAsCSV nts s =
     (if \<not> hasRecording s \<or> length (recordingData s) = 0 then None
      else
        (let firstFrame = hd (recordingData s);
             objectCount = length (objects firstFrame);
             csvRows = map (csvRow nts) (recordingData s)
         in Some (join [CHR 0x0A] (csvHeader objectCount # csvRows))))"

text \<open>
  The vocabulary in which the format of the file is stated: splitting a text at a
  separator, and a decimal numeral with exactly \<open>k\<close> digits after the point.
\<close>

fun splitOn :: "char \<Rightarrow> string \<Rightarrow> string list" where
  "splitOn c [] = [[]]"
| "splitOn c (d # ds) = (if d = c then [] # splitOn c ds
                         else (case splitOn c ds of [] \<Rightarrow> [[d]] | w # ws \<Rightarrow> (d # w) # ws))"

definition isDigit :: "char \<Rightarrow> bool" where
  "isDigit c = (c \<in> set ''0123456789'')"

definition isFixedDecimal :: "nat \<Rightarrow> string \<Rightarrow> bool" where
  "isFixedDecimal k str =
     (let u = (case str of [] \<Rightarrow> [] | c # cs \<Rightarrow> if c = CHR ''-'' then cs else str);
          a = takeWhile isDigit u;
          r = dropWhile isDigit u
      in a \<noteq> [] \<and> (case r of [] \<Rightarrow> False
                     | c # b \<Rightarrow> c = CHR ''.'' \<and> length b = k \<and> list_all isDigit b))"

text \<open>The column names of the header for \<open>n\<close> objects, and the numbers of a row.\<close>

definition objectColumns :: "nat \<Rightarrow> string list" where
  "objectColumns i =
     map (\<lambda>suffix. ''Object'' @ digitsOf i @ suffix)
       [''_Pos_X'', ''_Pos_Y'', ''_Pos_Z'', ''_Rot_X'', ''_Rot_Y'', ''_Rot_Z'', ''_Rot_W'']"

definition headerColumns :: "nat \<Rightarrow> string list" where
  "headerColumns n =
     [''Timestamp'', ''RobotArm_X'', ''RobotArm_Y'', ''RobotArm_Z''] @
     concat (map objectColumns [1..<n + 1])"

definition objectNumbers :: "object_state \<Rightarrow> real list" where
  "objectNumbers obj =
     [vx (position obj), vy (position obj), vz (position obj),
      qx (rotation obj), qy (rotation obj), qz (rotation obj), qw (rotation obj)]"

definition frameNumbers :: "frame \<Rightarrow> real list" where
  "frameNumbers fr =
     [vx (robotArm fr), vy (robotArm fr), vz (robotArm fr)] @ concat (map objectNumbers (objects fr))"

text \<open>The header the specification names, for comparison.\<close>

definition specHeaderColumns :: "nat \<Rightarrow> string list" where
  "specHeaderColumns n =
     [''Timestamp'', ''EndEffector_X'', ''EndEffector_Y'', ''EndEffector_Z''] @
     concat (map objectColumns [1..<n + 1])"

section \<open>Verification adapter\<close>

text \<open>
  Texts are byte strings. \<^verbatim>\<open>toUpperCase\<close> maps the ASCII letters; case mappings of
  other scripts are not modelled. \<^verbatim>\<open>String.prototype.includes\<close> is the search for a
  contiguous occurrence, and \<^verbatim>\<open>trim\<close> strips white space at both ends.
\<close>

definition upperChar :: "char \<Rightarrow> char" where
  "upperChar c =
     (case map_of (zip ''abcdefghijklmnopqrstuvwxyz'' ''ABCDEFGHIJKLMNOPQRSTUVWXYZ'') c of
        Some u \<Rightarrow> u
      | None \<Rightarrow> c)"

definition toUpperCase :: "string \<Rightarrow> string" where
  "toUpperCase str = map upperChar str"

fun includes_str :: "string \<Rightarrow> string \<Rightarrow> bool" where
  "includes_str [] pat = (pat = [])"
| "includes_str (c # cs) pat = (take (length pat) (c # cs) = pat \<or> includes_str cs pat)"

definition isSpace :: "char \<Rightarrow> bool" where
  "isSpace c = (c \<in> set [CHR '' '', CHR 0x09, CHR 0x0A, CHR 0x0B, CHR 0x0C, CHR 0x0D])"

definition trim :: "string \<Rightarrow> string" where
  "trim str = rev (dropWhile isSpace (rev (dropWhile isSpace str)))"

text \<open>
  What the request can come back with. The first three make the \<^verbatim>\<open>try\<close> block throw:
  \<^verbatim>\<open>fetch\<close> rejects, \<^verbatim>\<open>response.json()\<close> rejects, or \<^verbatim>\<open>response.ok\<close> is false. Otherwise
  \<^verbatim>\<open>data.candidates?.[0]?.content?.parts?.[0]?.text\<close> is missing, a string, or some other
  value, of which only its truthiness matters.
\<close>

datatype candidate = NoText | TextString string | TextOther bool

datatype response = NetworkFailure | MalformedBody | HttpError | Answer candidate

datatype verdict = Success | Failed

record verifier =
  isVerifying :: bool
  verificationResult :: "verdict option"

text \<open>
  The \<^verbatim>\<open>try\<close> block: \<open>None\<close> is a thrown exception, \<open>Some b\<close> the value of
  \<^verbatim>\<open>isVerified\<close>. A truthy value that is not a string has no \<^verbatim>\<open>toUpperCase\<close>, and the
  call throws.
\<close>

definition isVerified :: "response \<Rightarrow> bool option" where
  "isVerified resp =
     (case resp of
        NetworkFailure \<Rightarrow> None
      | MalformedBody \<Rightarrow> None
      | HttpError \<Rightarrow> None
      | Answer (TextOther True) \<Rightarrow> None
      | Answer c \<Rightarrow>
          (let result = (case c of TextString t \<Rightarrow> t | _ \<Rightarrow> [])
           in Some (includes_str (toUpperCase result) ''VERIFIED'' \<and>
                    \<not> includes_str (toUpperCase result) ''NOT_VERIFIED'')))"

text \<open>
  \<^verbatim>\<open>verifyWithGemini\<close>, from the click to the end of the \<^verbatim>\<open>finally\<close> block: the new
  state of the adapter and the calls of \<^verbatim>\<open>onVerify\<close>, in order. The alerts are not
  modelled.
\<close>

definition verifyWithGemini ::
    "string \<Rightarrow> bool \<Rightarrow> response \<Rightarrow> verifier \<Rightarrow> verifier \<times> bool list" where
  "verifyWithGemini apiKey rendererReady resp v =
     (if trim apiKey = [] then (v, [])
      else if \<not> rendererReady then (v, [False])
      else
        (case isVerified resp of
           Some True \<Rightarrow> (v\<lparr>isVerifying := False, verificationResult := Some Success\<rparr>, [True])
         | Some False \<Rightarrow> (v\<lparr>isVerifying := False, verificationResult := Some Failed\<rparr>, [False])
         | None \<Rightarrow> (v\<lparr>isVerifying := False, verificationResult := Some Failed\<rparr>, [False])))"

section \<open>Placement of the objects\<close>

text \<open>
  An entry of \<^verbatim>\<open>occupiedPositions\<close>. \<^verbatim>\<open>Math.random\<close> is a sequence \<open>rand\<close> of numbers
  and a count of the calls made so far.
\<close>

record occupied =
  occ_x :: real
  occ_z :: real
  occ_radius :: real

definition numObjects :: nat where
  "numObjects = 3"

definition maxAttempts :: nat where
  "maxAttempts = 100"

definition isPositionValid :: "occupied list \<Rightarrow> real \<Rightarrow> real \<Rightarrow> real \<Rightarrow> bool" where
  "isPositionValid occupiedPositions x z radius =
     (let minDistance = radius * 4;
          robotArmX = 0;
          robotArmZ = 0;
          robotArmRadius = 45 / 100;
          distanceFromRobotArm = sqrt ((x - robotArmX) ^ 2 + (z - robotArmZ) ^ 2);
          minDistanceFromRobotArm = robotArmRadius + radius + 5 / 10
      in if distanceFromRobotArm < minDistanceFromRobotArm then False
         else list_all
                (\<lambda>pos. \<not> sqrt ((x - occ_x pos) ^ 2 + (z - occ_z pos) ^ 2) < minDistance + occ_radius pos * 2)
                occupiedPositions)"

definition candidate :: "real \<Rightarrow> real" where
  "candidate r = (r - 5 / 10) * (35 / 10)"

text \<open>
  The \<^verbatim>\<open>do ... while\<close> loop: \<open>k\<close> counts the random numbers drawn, \<open>attempts\<close> the
  candidates tried. It returns the last candidate with both counters.
\<close>

function sampleLoop ::
    "(nat \<Rightarrow> real) \<Rightarrow> occupied list \<Rightarrow> real \<Rightarrow> nat \<Rightarrow> nat \<Rightarrow> real \<times> real \<times> nat \<times> nat" where
  "sampleLoop rand occ radius k attempts =
     (if \<not> isPositionValid occ (candidate (rand k)) (candidate (rand (k + 1))) radius \<and>
         attempts + 1 < maxAttempts
      then sampleLoop rand occ radius (k + 2) (attempts + 1)
      else (candidate (rand k), candidate (rand (k + 1)), attempts + 1, k + 2))"
  by pat_completeness auto
termination
  by (relation "measure (\<lambda>(rand, occ, radius, k, attempts). maxAttempts - attempts)") auto

declare sampleLoop.simps [simp del]

text \<open>One turn of the \<^verbatim>\<open>for\<close> loop of \<^verbatim>\<open>initPhysics\<close>, as far as the position goes.\<close>

definition placeObject :: "(nat \<Rightarrow> real) \<Rightarrow> occupied list \<times> nat \<Rightarrow> occupied list \<times> nat" where
  "placeObject rand st =
     (let (occupiedPositions, k) = st;
          size = 75 / 100;
          objectRadius = size * (12 / 10);
          (x, z, attempts, k') = sampleLoop rand occupiedPositions objectRadius k 0;
          (x', z') =
            (if attempts \<ge> maxAttempts
             then (let gridSize = nat \<lceil>sqrt (real numObjects)\<rceil>;
                       gridIndex = length occupiedPositions;
                       gridX = real (gridIndex mod gridSize) - real gridSize / 2;
                       gridZ = real_of_int \<lfloor>real gridIndex / real gridSize\<rfloor> - real gridSize / 2
                   in (gridX * (12 / 10), gridZ * (12 / 10)))
             else (x, z))
      in (occupiedPositions @ [\<lparr>occ_x = x', occ_z = z', occ_radius = objectRadius\<rparr>], k'))"

definition placeObjects :: "(nat \<Rightarrow> real) \<Rightarrow> occupied list" where
  "placeObjects rand = fst (fold (\<lambda>i. placeObject rand) [0..<numObjects] ([], 0))"

text \<open>
  The clearance disks of the specification: an object's disk has the radius stored in
  \<^verbatim>\<open>occupiedPositions\<close>, the end-effector's is centred at the origin with the robot arm's
  radius. Two disks are clear of each other when their centres are at least the sum of
  the radii apart.
\<close>

definition endEffectorDisk :: occupied where
  "endEffectorDisk = \<lparr>occ_x = 0, occ_z = 0, occ_radius = 45 / 100\<rparr>"

definition disksClear :: "occupied \<Rightarrow> occupied \<Rightarrow> bool" where
  "disksClear a b = (sqrt ((occ_x a - occ_x b) ^ 2 + (occ_z a - occ_z b) ^ 2) \<ge> occ_radius a + occ_radius b)"

text \<open>Axis-aligned cubes of edge \<open>3/4\<close> centred at two positions share interior points.\<close>

definition cubesOverlap :: "occupied \<Rightarrow> occupied \<Rightarrow> bool" where
  "cubesOverlap a b = (\<bar>occ_x a - occ_x b\<bar> < 75 / 100 \<and> \<bar>occ_z a - occ_z b\<bar> < 75 / 100)"

section \<open>Vocabulary of the properties\<close>

text \<open>
  The timestamps of a buffer are exact when the frame at index \<open>i\<close> carries \<open>i * 100\<close>;
  the invariant adds that the frame counter is the number of frames recorded.
\<close>

definition timestampsExact :: "frame list \<Rightarrow> bool" where
  "timestampsExact buf = (map timestamp buf = map (\<lambda>i. real i * 100) [0..<length buf])"

definition bufferInv :: "captcha \<Rightarrow> bool" where
  "bufferInv s = (frameCount s = length (recordingData s) \<and> timestampsExact (recordingData s))"

text \<open>
  What the controls keep true of the flags and the buffer: the refs mirror the state
  variables, a recording that is marked available and not being overwritten is not
  empty, and replay runs only on such a recording.
\<close>

definition controlsInv :: "captcha \<Rightarrow> bool" where
  "controlsInv s =
     (isRecordingRef s = isRecording s \<and> isReplayingRef s = isReplaying s \<and>
      (hasRecording s \<and> \<not> isRecording s \<longrightarrow> recordingData s \<noteq> []) \<and>
      (isReplaying s \<longrightarrow> hasRecording s \<and> \<not> isRecording s))"

text \<open>The component as it is mounted: nothing recorded, nothing running.\<close>

definition freshlyMounted :: "captcha \<Rightarrow> bool" where
  "freshlyMounted s =
     (\<not> isRecording s \<and> \<not> isReplaying s \<and> \<not> hasRecording s \<and> \<not> isRecordingRef s \<and>
      \<not> isReplayingRef s \<and> recordingData s = [] \<and> frameCount s = 0)"

text \<open>The exchange of the \<open>y\<close> and \<open>z\<close> channels of a quaternion.\<close>

definition swapYZ :: "quat \<Rightarrow> quat" where
  "swapYZ q = \<lparr>qx = qx q, qy = qz q, qz = qy q, qw = qw q\<rparr>"

text \<open>
  The region in which every placed object lies: the sampling square, with the one safety
  radius the loop uses.
\<close>

definition inSquare :: "occupied \<Rightarrow> bool" where
  "inSquare p = (\<bar>occ_x p\<bar> \<le> 175 / 100 \<and> \<bar>occ_z p\<bar> \<le> 175 / 100 \<and> occ_radius p = 9 / 10)"

section \<open>Examples\<close>

text \<open>
  The component after scene setup, with the robot arm at its starting place and one cube
  resting on the table, slightly turned; and the same component replaying a recording of
  three frames that was started at clock time 1000.
\<close>

definition exampleCube :: scene_object where
  "exampleCube =
     \<lparr>mesh_position = \<lparr>vx = 3 / 2, vy = 375 / 1000, vz = - 1\<rparr>,
      mesh_quaternion = \<lparr>qx = 0, qy = 3 / 5, qz = 0, qw = 4 / 5\<rparr>,
      body_translation = \<lparr>vx = 3 / 2, vy = 375 / 1000, vz = - 1\<rparr>,
      body_rotation = \<lparr>qx = 0, qy = 3 / 5, qz = 0, qw = 4 / 5\<rparr>\<rparr>"

definition readyState :: captcha where
  "readyState =
     \<lparr>isRecording = False, isReplaying = False, hasRecording = False,
      isRecordingRef = False, isReplayingRef = False,
      recordingData = [], recordingStartTime = 0, replayStartTime = 0,
      recordingInterval = False, frameCount = 0,
      robotArmRef = Some \<lparr>arm_position = \<lparr>vx = 0, vy = 4 / 10, vz = 0\<rparr>,
                          arm_body = Some \<lparr>vx = 0, vy = 4 / 10, vz = 0\<rparr>\<rparr>,
      objectsRef = [exampleCube], worldRef = True, isMounted = True, lastTime = 0\<rparr>"

definition exampleFrame :: "real \<Rightarrow> real \<Rightarrow> frame" where
  "exampleFrame t x =
     \<lparr>timestamp = t, robotArm = \<lparr>vx = x, vy = 0, vz = 76 / 100\<rparr>,
      objects = [\<lparr>position = \<lparr>vx = 35 / 100, vy = - (1 / 15), vz = 76 / 100\<rparr>,
                  rotation = \<lparr>qx = 0, qy = 0, qz = 3 / 5, qw = 4 / 5\<rparr>\<rparr>]\<rparr>"

definition replayingState :: captcha where
  "replayingState =
     readyState\<lparr>hasRecording := True, isReplaying := True, isReplayingRef := True,
                replayStartTime := 1000, frameCount := 3,
                recordingData := [exampleFrame 0 (1 / 4), exampleFrame 100 (3 / 10),
                                  exampleFrame 200 (7 / 20)]\<rparr>"

text \<open>A physics step for the examples: every body drops by a hundredth.\<close>

definition exampleStep :: physics where
  "exampleStep arm objs =
     map (\<lambda>obj. obj\<lparr>body_translation := (body_translation obj)\<lparr>vy := vy (body_translation obj) - 1 / 100\<rparr>\<rparr>) objs"

text \<open>
  A recording session for the examples: three timer ticks with animation frames and a
  pointer move between them, at uneven clock times, then the stop button and a late tick.
\<close>

definition exampleSession :: "event list" where
  "exampleSession =
     [IntervalTick, Animate 1017 1017, Pointer 1 1, IntervalTick, Animate 1300 1301,
      IntervalTick, StopRecording, IntervalTick]"

text \<open>The scene of the examples with its cube turned upright again.\<close>

definition uprightState :: captcha where
  "uprightState =
     readyState\<lparr>objectsRef :=
       [exampleCube\<lparr>mesh_quaternion := \<lparr>qx = 0, qy = 0, qz = 0, qw = 1\<rparr>,
                    body_rotation := \<lparr>qx = 0, qy = 0, qz = 0, qw = 1\<rparr>\<rparr>]\<rparr>"

text \<open>
  For the examples: the scene after a recording of one frame was stopped, a stand-in for
  the exponent notation, which no number of the examples reaches, and the text of the
  file exported from that state.
\<close>

definition recordedState :: captcha where
  "recordedState = readyState\<lparr>hasRecording := True, frameCount := 1,
                               recordingData := [exampleFrame 0 (1 / 4)]\<rparr>"

definition noExponent :: "real \<Rightarrow> string" where
  "noExponent x = []"

definition exampleCsv :: string where
  "exampleCsv =
     ''Timestamp,RobotArm_X,RobotArm_Y,RobotArm_Z,Object1_Pos_X,Object1_Pos_Y,Object1_Pos_Z,'' @
     ''Object1_Rot_X,Object1_Rot_Y,Object1_Rot_Z,Object1_Rot_W'' @ [CHR 0x0A] @
     ''0.000,0.250000,0.000000,0.760000,0.350000,-0.066667,0.760000,'' @
     ''0.000000,0.000000,0.600000,0.800000''"

text \<open>The adapter before any verification.\<close>

definition idleVerifier :: verifier where
  "idleVerifier = \<lparr>isVerifying = False, verificationResult = None\<rparr>"

text \<open>A run of \<^verbatim>\<open>Math.random\<close> for the examples: \<open>0.7\<close> first, then \<open>0\<close> for ever.\<close>

definition exampleRandom :: "nat \<Rightarrow> real" where
  "exampleRandom k = (if k = 0 then 7 / 10 else 0)"

section \<open>Misuse of the controls\<close>

text \<open>
  C7. Misuse calls are silent no-ops. \<^verbatim>\<open>startRecording\<close> invoked while replay is active
  returns the state it was given: the buffer is not cleared, the frame counter is not
  reset and the recording flag is not set. \<^verbatim>\<open>startReplay\<close> invoked with no recording
  available, or while recording is active, returns the state it was given: no start time
  is captured and the replayer does not enter Playing.
\<close>

theorem misuse_is_noop:
  "(isReplaying s \<longrightarrow> startRecording now s = s) \<and>
   (\<not> hasRecording s \<or> isRecording s \<longrightarrow> startReplay now s = s)"
  by (simp add: startRecording_def startReplay_def)

theorem misuse_is_noop_witness:
  "isReplaying replayingState \<and> startRecording 5 replayingState = replayingState \<and>
   \<not> hasRecording readyState \<and> startReplay 7 readyState = readyState"
  using misuse_is_noop [of replayingState 5] misuse_is_noop [of readyState 7]
  by (simp add: replayingState_def readyState_def)

section \<open>The buffer invariant holds along every run\<close>

lemma bufferInv_recordFixedFrame: "bufferInv s \<Longrightarrow> bufferInv (recordFixedFrame s)"
  by (auto simp: bufferInv_def timestampsExact_def recordFixedFrame_def Let_def split: option.splits)

lemma replayFrame_buffer:
  "recordingData (fst (replayFrame t s)) = recordingData s \<and>
   frameCount (fst (replayFrame t s)) = frameCount s"
  by (auto simp: replayFrame_def Let_def imposeFrame_def stopReplay_def split: option.splits)

lemma animate_buffer:
  "recordingData (fst (animate step t t' s)) = recordingData s \<and>
   frameCount (fst (animate step t t' s)) = frameCount s"
  using replayFrame_buffer [of t' "s\<lparr>lastTime := t\<rparr>"]
  by (simp add: animate_def Let_def split_beta)

lemma bufferInv_exec: "bufferInv s \<Longrightarrow> bufferInv (fst (exec step ev s))"
proof (cases ev)
  case (Animate t t')
  assume "bufferInv s"
  then show ?thesis using animate_buffer [of step t t' s] Animate by (simp add: bufferInv_def)
next
  case IntervalTick
  assume "bufferInv s"
  then show ?thesis using IntervalTick bufferInv_recordFixedFrame by (simp add: intervalCallback_def)
qed (auto simp: bufferInv_def timestampsExact_def startRecording_def stopRecording_def
      startReplay_def stopReplay_def pointer_def Let_def)

lemma bufferInv_run: "bufferInv s \<Longrightarrow> bufferInv (fst (run step evs s))"
proof (induction evs arbitrary: s)
  case Nil
  then show ?case by simp
next
  case (Cons ev evs)
  from Cons.prems have "bufferInv (fst (exec step ev s))" by (rule bufferInv_exec)
  from Cons.IH [OF this] show ?case by (simp add: split_beta Let_def)
qed

section \<open>Fixed-rate timestamps\<close>

text \<open>
  C2. For every recording session, the i-th frame appended (counting from 0) has timestamp
  exactly \<open>i * 100\<close> ms, so that the timestamps are strictly increasing and exactly 100 ms
  apart whatever the clock did between the ticks: the session is any sequence of events,
  with any clock readings, after a \<^verbatim>\<open>startRecording\<close> that was not rejected.
  \<^verbatim>\<open>startRecording\<close> clears the buffer and resets the frame counter, so the first frame
  of a recording has timestamp 0.
\<close>

theorem recorded_timestamps:
  assumes "\<not> isReplaying s0"
  shows "recordingData (startRecording t s0) = [] \<and> frameCount (startRecording t s0) = 0 \<and>
         (\<forall>evs. let buf = recordingData (fst (run step evs (startRecording t s0)))
                in (\<forall>i. i < length buf \<longrightarrow> timestamp (buf ! i) = real i * 100) \<and>
                   (\<forall>i. i + 1 < length buf \<longrightarrow> timestamp (buf ! (i + 1)) = timestamp (buf ! i) + 100))"
proof -
  let ?s = "startRecording t s0"
  have start: "recordingData ?s = [] \<and> frameCount ?s = 0"
    using assms by (simp add: startRecording_def)
  then have inv0: "bufferInv ?s" by (simp add: bufferInv_def timestampsExact_def)
  have "\<And>evs i. i < length (recordingData (fst (run step evs ?s))) \<Longrightarrow>
          timestamp (recordingData (fst (run step evs ?s)) ! i) = real i * 100"
  proof -
    fix evs i
    let ?buf = "recordingData (fst (run step evs ?s))"
    assume i: "i < length ?buf"
    have "map timestamp ?buf = map (\<lambda>i. real i * 100) [0..<length ?buf]"
      using bufferInv_run [OF inv0, of step evs] by (simp add: bufferInv_def timestampsExact_def)
    then have "map timestamp ?buf ! i = map (\<lambda>i. real i * 100) [0..<length ?buf] ! i" by simp
    with i show "timestamp (?buf ! i) = real i * 100" by simp
  qed
  then have "\<And>evs. let buf = recordingData (fst (run step evs ?s))
                in (\<forall>i. i < length buf \<longrightarrow> timestamp (buf ! i) = real i * 100) \<and>
                   (\<forall>i. i + 1 < length buf \<longrightarrow> timestamp (buf ! (i + 1)) = timestamp (buf ! i) + 100)"
    by (simp add: Let_def algebra_simps)
  with start show ?thesis by blast
qed

theorem recorded_timestamps_witness:
  "\<not> isReplaying readyState \<and>
   length (recordingData (fst (run exampleStep exampleSession (startRecording 1000 readyState)))) = 3 \<and>
   timestamp (recordingData (fst (run exampleStep exampleSession (startRecording 1000 readyState))) ! 0) = 0 \<and>
   timestamp (recordingData (fst (run exampleStep exampleSession (startRecording 1000 readyState))) ! 1) = 100 \<and>
   timestamp (recordingData (fst (run exampleStep exampleSession (startRecording 1000 readyState))) ! 2) = 200"
proof -
  let ?buf = "recordingData (fst (run exampleStep exampleSession (startRecording 1000 readyState)))"
  have h: "\<not> isReplaying readyState" by (simp add: readyState_def)
  have len: "length ?buf = 3"
    by (simp add: exampleSession_def startRecording_def readyState_def intervalCallback_def
        recordFixedFrame_def Let_def animate_def pointer_def stopRecording_def split_beta)
  from recorded_timestamps [OF h, of 1000 exampleStep]
  have "\<forall>i. i < length ?buf \<longrightarrow> timestamp (?buf ! i) = real i * 100"
    by (simp add: Let_def)
  with len have "timestamp (?buf ! 0) = 0 \<and> timestamp (?buf ! 1) = 100 \<and> timestamp (?buf ! 2) = 200"
    by simp
  with h len show ?thesis by blast
qed

section \<open>Frame selection during replay\<close>

text \<open>
  C3. On every replay tick (the replayer is playing and the robot arm exists), with
  \<open>elapsed = now - replayStartTime\<close>, the frame whose pose is imposed is the first frame
  in buffer order whose timestamp is at least \<open>elapsed\<close>: if the frame at index \<open>i\<close> is
  the first such frame, \<^verbatim>\<open>replayFrame\<close> imposes exactly it, and whatever frame
  \<^verbatim>\<open>replayFrame\<close> imposes is that first frame. The example of the frames at 0, 100 and
  200 ms queried at 150 ms, which selects the frame at 200 ms, follows the theorem.
\<close>

theorem replay_selects_first_frame:
  assumes "isReplayingRef s" and "robotArmRef s \<noteq> None"
  shows "(\<forall>i. i < length (recordingData s) \<and>
              timestamp (recordingData s ! i) \<ge> now - replayStartTime s \<and>
              (\<forall>j. j < i \<longrightarrow> timestamp (recordingData s ! j) < now - replayStartTime s) \<longrightarrow>
              replayFrame now s =
                (imposeFrame (recordingData s ! i) s, [PoseImposed (recordingData s ! i)])) \<and>
         (\<forall>fr. PoseImposed fr \<in> set (snd (replayFrame now s)) \<longrightarrow>
               (\<exists>i. i < length (recordingData s) \<and> fr = recordingData s ! i \<and>
                    timestamp fr \<ge> now - replayStartTime s \<and>
                    (\<forall>j. j < i \<longrightarrow> timestamp (recordingData s ! j) < now - replayStartTime s)))"
proof (intro conjI allI impI)
  fix i
  assume a: "i < length (recordingData s) \<and>
              timestamp (recordingData s ! i) \<ge> now - replayStartTime s \<and>
              (\<forall>j. j < i \<longrightarrow> timestamp (recordingData s ! j) < now - replayStartTime s)"
  then have "find (\<lambda>f. timestamp f \<ge> now - replayStartTime s) (recordingData s) = Some (recordingData s ! i)"
    unfolding find_Some_iff by (intro exI [of _ i]) (auto simp: not_le)
  with assms show "replayFrame now s =
                (imposeFrame (recordingData s ! i) s, [PoseImposed (recordingData s ! i)])"
    by (simp add: replayFrame_def Let_def)
next
  fix fr
  assume "PoseImposed fr \<in> set (snd (replayFrame now s))"
  with assms have "find (\<lambda>f. timestamp f \<ge> now - replayStartTime s) (recordingData s) = Some fr"
    by (auto simp: replayFrame_def Let_def split: option.splits if_splits)
  then show "\<exists>i. i < length (recordingData s) \<and> fr = recordingData s ! i \<and>
                    timestamp fr \<ge> now - replayStartTime s \<and>
                    (\<forall>j. j < i \<longrightarrow> timestamp (recordingData s ! j) < now - replayStartTime s)"
    unfolding find_Some_iff by (auto simp: not_le)
qed

theorem replay_selects_first_frame_witness:
  "isReplayingRef replayingState \<and> robotArmRef replayingState \<noteq> None \<and>
   map timestamp (recordingData replayingState) = [0, 100, 200] \<and>
   1150 - replayStartTime replayingState = 150 \<and>
   replayFrame 1150 replayingState =
     (imposeFrame (exampleFrame 200 (7 / 20)) replayingState, [PoseImposed (exampleFrame 200 (7 / 20))])"
proof -
  have h1: "isReplayingRef replayingState" and h2: "robotArmRef replayingState \<noteq> None"
    by (simp_all add: replayingState_def readyState_def)
  have buf: "recordingData replayingState = [exampleFrame 0 (1 / 4), exampleFrame 100 (3 / 10),
                                  exampleFrame 200 (7 / 20)]"
    by (simp add: replayingState_def)
  have st: "replayStartTime replayingState = 1000" by (simp add: replayingState_def)
  have pre: "2 < length (recordingData replayingState) \<and>
             timestamp (recordingData replayingState ! 2) \<ge> 1150 - replayStartTime replayingState \<and>
             (\<forall>j. j < 2 \<longrightarrow> timestamp (recordingData replayingState ! j) < 1150 - replayStartTime replayingState)"
    by (simp add: buf st exampleFrame_def less_Suc_eq numeral_2_eq_2)
  from replay_selects_first_frame [OF h1 h2, of 1150] pre
  have "replayFrame 1150 replayingState =
          (imposeFrame (recordingData replayingState ! 2) replayingState,
           [PoseImposed (recordingData replayingState ! 2)])" by blast
  then show ?thesis using h1 h2 by (simp add: buf st exampleFrame_def)
qed

section \<open>Replay runs on a recorded, time-ordered buffer\<close>

text \<open>
  Whatever happens to a freshly mounted component, whenever the replayer is playing the
  buffer is not empty and its timestamps are in order: the two conditions under which the
  end of replay is stated below.
\<close>

lemma replayFrame_controls:
  "isRecording (fst (replayFrame t s)) = isRecording s \<and>
   isRecordingRef (fst (replayFrame t s)) = isRecordingRef s \<and>
   hasRecording (fst (replayFrame t s)) = hasRecording s \<and>
   (isReplaying (fst (replayFrame t s)) = isReplaying s \<and>
    isReplayingRef (fst (replayFrame t s)) = isReplayingRef s \<or>
    \<not> isReplaying (fst (replayFrame t s)) \<and> \<not> isReplayingRef (fst (replayFrame t s)))"
  by (auto simp: replayFrame_def Let_def imposeFrame_def stopReplay_def split: option.splits)

lemma controlsInv_animate: "controlsInv s \<Longrightarrow> controlsInv (fst (animate step t t' s))"
proof -
  assume inv: "controlsInv s"
  let ?s1 = "s\<lparr>lastTime := t\<rparr>"
  show ?thesis
  proof (cases "isMounted s \<and> isReplayingRef s")
    case True
    then have an: "fst (animate step t t' s) = fst (replayFrame t' ?s1)"
      by (simp add: animate_def Let_def split_beta)
    from inv replayFrame_controls [of t' ?s1] replayFrame_buffer [of t' ?s1]
    show ?thesis unfolding an controlsInv_def by auto
  next
    case False
    with inv show ?thesis by (auto simp: animate_def Let_def controlsInv_def)
  qed
qed

lemma controlsInv_exec: "controlsInv s \<Longrightarrow> controlsInv (fst (exec step ev s))"
proof (cases ev)
  case (Animate t t')
  assume "controlsInv s"
  then show ?thesis using controlsInv_animate Animate by simp
qed (auto simp: controlsInv_def startRecording_def stopRecording_def startReplay_def stopReplay_def
      intervalCallback_def recordFixedFrame_def pointer_def Let_def split: option.splits)

lemma controlsInv_run: "controlsInv s \<Longrightarrow> controlsInv (fst (run step evs s))"
proof (induction evs arbitrary: s)
  case Nil
  then show ?case by simp
next
  case (Cons ev evs)
  from Cons.prems have "controlsInv (fst (exec step ev s))" by (rule controlsInv_exec)
  from Cons.IH [OF this] show ?case by (simp add: split_beta Let_def)
qed

lemma timestampsExact_sorted: "timestampsExact buf \<Longrightarrow> sorted (map timestamp buf)"
proof -
  assume "timestampsExact buf"
  then have eq: "map timestamp buf = map (\<lambda>i. real i * 100) [0..<length buf]"
    by (simp add: timestampsExact_def)
  have "sorted (map (\<lambda>i. real i * 100) [0..<n])" for n
    by (induction n) (auto simp: sorted_append)
  then show ?thesis unfolding eq .
qed

lemma replay_buffer_ready:
  assumes "freshlyMounted s0" and "isReplayingRef (fst (run step evs s0))"
  shows "recordingData (fst (run step evs s0)) \<noteq> [] \<and>
         sorted (map timestamp (recordingData (fst (run step evs s0))))"
proof -
  from assms(1) have "controlsInv s0" and "bufferInv s0"
    by (simp_all add: freshlyMounted_def controlsInv_def bufferInv_def timestampsExact_def)
  then have c: "controlsInv (fst (run step evs s0))" and b: "bufferInv (fst (run step evs s0))"
    by (simp_all add: controlsInv_run bufferInv_run)
  from c assms(2) have "recordingData (fst (run step evs s0)) \<noteq> []"
    by (auto simp: controlsInv_def)
  moreover from b have "sorted (map timestamp (recordingData (fst (run step evs s0))))"
    by (simp add: bufferInv_def timestampsExact_sorted)
  ultimately show ?thesis by simp
qed

section \<open>End of replay\<close>

lemma replayFrame_idle: "\<not> isReplayingRef s \<Longrightarrow> replayFrame t s = (s, [])"
  by (simp add: replayFrame_def)

lemma animate_idle:
  "\<not> isReplayingRef s \<Longrightarrow>
   \<not> isReplayingRef (fst (animate step t t' s)) \<and>
   set (snd (animate step t t' s)) \<subseteq> {PhysicsStep, VisualSync, Render}"
  by (auto simp: animate_def Let_def split_beta)

lemma exec_idle:
  assumes "\<not> isReplayingRef s" and "\<forall>t. ev \<noteq> StartReplay t"
  shows "\<not> isReplayingRef (fst (exec step ev s)) \<and>
         set (snd (exec step ev s)) \<subseteq> {PhysicsStep, VisualSync, Render}"
proof (cases ev)
  case (Animate t t')
  with assms(1) animate_idle [of s step t t'] show ?thesis by simp
next
  case (StartReplay t)
  with assms(2) show ?thesis by simp
qed (use assms(1) in \<open>auto simp: startRecording_def stopRecording_def stopReplay_def
      intervalCallback_def recordFixedFrame_def pointer_def Let_def split: option.splits\<close>)

lemma run_idle:
  "\<not> isReplayingRef s \<Longrightarrow> \<forall>t. StartReplay t \<notin> set evs \<Longrightarrow>
   \<not> isReplayingRef (fst (run step evs s)) \<and>
   set (snd (run step evs s)) \<subseteq> {PhysicsStep, VisualSync, Render}"
proof (induction evs arbitrary: s)
  case Nil
  then show ?case by simp
next
  case (Cons ev evs)
  from Cons.prems have ev: "\<forall>t. ev \<noteq> StartReplay t" and evs: "\<forall>t. StartReplay t \<notin> set evs"
    by auto
  from exec_idle [OF Cons.prems(1) ev, of step]
  have 1: "\<not> isReplayingRef (fst (exec step ev s))"
    and 2: "set (snd (exec step ev s)) \<subseteq> {PhysicsStep, VisualSync, Render}" by blast+
  from Cons.IH [OF 1 evs] 2 show ?case by (simp add: split_beta Let_def)
qed

lemma find_none_past_last:
  assumes "sorted (map timestamp buf)" and "buf \<noteq> []" and "timestamp (last buf) < e"
  shows "find (\<lambda>f. timestamp f \<ge> e) buf = None"
proof -
  have "\<forall>f \<in> set buf. timestamp f \<le> timestamp (last buf)"
  proof
    fix f assume "f \<in> set buf"
    then obtain i where i: "i < length buf" "f = buf ! i" by (auto simp: in_set_conv_nth)
    have "map timestamp buf ! i \<le> map timestamp buf ! (length buf - 1)"
      using assms(1) i(1) by (intro sorted_nth_mono) auto
    with i assms(2) show "timestamp f \<le> timestamp (last buf)" by (simp add: last_conv_nth)
  qed
  with assms(3) show ?thesis by (force simp: find_None_iff)
qed

text \<open>
  C4. If the replayer is playing (on a mounted component with its robot arm) and the
  elapsed time exceeds the last frame's timestamp of the time-ordered buffer, the tick
  imposes no frame, stops playback and leaves the replayer idle. The transition occurs
  once: from then on \<^verbatim>\<open>replayFrame\<close> does nothing, and along every later sequence of events
  in which replay is not started again, no tick imposes a frame or stops the replay
  again. The tick ends as any other, with the render.
\<close>

theorem replay_end_once:
  assumes "isMounted s" and "isReplayingRef s" and "robotArmRef s \<noteq> None"
    and "recordingData s \<noteq> []" and "sorted (map timestamp (recordingData s))"
    and "now' - replayStartTime s > timestamp (last (recordingData s))"
  shows "snd (animate step now now' s) = [ReplayStopped, Render] \<and>
         \<not> isReplaying (fst (animate step now now' s)) \<and>
         \<not> isReplayingRef (fst (animate step now now' s)) \<and>
         (\<forall>t. replayFrame t (fst (animate step now now' s)) = (fst (animate step now now' s), [])) \<and>
         (\<forall>evs. (\<forall>t. StartReplay t \<notin> set evs) \<longrightarrow>
                \<not> isReplayingRef (fst (run step evs (fst (animate step now now' s)))) \<and>
                ReplayStopped \<notin> set (snd (run step evs (fst (animate step now now' s)))) \<and>
                (\<forall>fr. PoseImposed fr \<notin> set (snd (run step evs (fst (animate step now now' s))))))"
proof -
  let ?s1 = "s\<lparr>lastTime := now\<rparr>"
  have none: "find (\<lambda>f. timestamp f \<ge> now' - replayStartTime s) (recordingData s) = None"
    using assms(4-6) by (intro find_none_past_last) auto
  with assms have rf: "replayFrame now' ?s1 = (stopReplay ?s1, [ReplayStopped])"
    by (simp add: replayFrame_def Let_def)
  with assms have an: "animate step now now' s = (stopReplay ?s1, [ReplayStopped, Render])"
    by (simp add: animate_def Let_def)
  have idle: "\<not> isReplayingRef (fst (animate step now now' s))"
    and idle': "\<not> isReplaying (fst (animate step now now' s))"
    by (simp_all add: an stopReplay_def)
  have later: "\<And>evs. \<forall>t. StartReplay t \<notin> set evs \<Longrightarrow>
                \<not> isReplayingRef (fst (run step evs (fst (animate step now now' s)))) \<and>
                ReplayStopped \<notin> set (snd (run step evs (fst (animate step now now' s)))) \<and>
                (\<forall>fr. PoseImposed fr \<notin> set (snd (run step evs (fst (animate step now now' s)))))"
    using run_idle [OF idle, of _ step] by blast
  from an idle idle' later replayFrame_idle [OF idle] show ?thesis by simp
qed

theorem replay_end_once_witness:
  "isMounted replayingState \<and> isReplayingRef replayingState \<and> robotArmRef replayingState \<noteq> None \<and>
   recordingData replayingState \<noteq> [] \<and> sorted (map timestamp (recordingData replayingState)) \<and>
   1201 - replayStartTime replayingState > timestamp (last (recordingData replayingState)) \<and>
   snd (animate exampleStep 1201 1201 replayingState) = [ReplayStopped, Render] \<and>
   \<not> isReplayingRef (fst (animate exampleStep 1201 1201 replayingState)) \<and>
   ReplayStopped \<notin> set (snd (run exampleStep [Animate 1218 1218, IntervalTick, Animate 1234 1235]
                                (fst (animate exampleStep 1201 1201 replayingState))))"
proof -
  have h: "isMounted replayingState" "isReplayingRef replayingState" "robotArmRef replayingState \<noteq> None"
    "recordingData replayingState \<noteq> []" "sorted (map timestamp (recordingData replayingState))"
    "1201 - replayStartTime replayingState > timestamp (last (recordingData replayingState))"
    by (simp_all add: replayingState_def readyState_def exampleFrame_def)
  have e: "\<forall>t. StartReplay t \<notin> set [Animate 1218 1218, IntervalTick, Animate 1234 1235]" by simp
  from replay_end_once [OF h, of exampleStep 1201] e h show ?thesis by blast
qed

section \<open>Physics and replay exclude each other\<close>

lemma replayFrame_effects:
  "set (snd (replayFrame t s)) \<subseteq> {ReplayStopped} \<union> range PoseImposed"
  by (auto simp: replayFrame_def Let_def split: option.splits)

lemma replayFrame_outcomes:
  "fst (replayFrame t s) = s \<or> fst (replayFrame t s) = stopReplay s \<or>
   (\<exists>fr. fr \<in> set (recordingData s) \<and> fst (replayFrame t s) = imposeFrame fr s)"
proof (cases "find (\<lambda>f. timestamp f \<ge> t - replayStartTime s) (recordingData s)")
  case None
  then show ?thesis by (simp add: replayFrame_def Let_def)
next
  case (Some fr)
  then have "fr \<in> set (recordingData s)" by (auto simp: find_Some_iff)
  with Some show ?thesis by (auto simp: replayFrame_def Let_def)
qed

text \<open>
  C6. On every animation tick (of the mounted component, whose physics world exists from
  scene setup on), the physics world is stepped if and only if replay is not active. When
  replay is not active, the tick leaves exactly the scene that the physics step followed
  by the visual sync produces: the bodies are stepped and every mesh takes its body's
  pose. While replaying, the tick is the replayer's and nothing else: the state after it
  is the state before it (with the clock noted), or that state with replay stopped, or
  that state with a recorded frame imposed, so that no physics integration and no visual
  sync occur. A pose is imposed only in a replaying tick, so physics stepping with visual
  sync never shares a tick with pose imposition.
\<close>

theorem physics_excludes_replay:
  assumes "isMounted s" and "worldRef s"
  shows "(PhysicsStep \<in> set (snd (animate step now now' s)) \<longleftrightarrow> \<not> isReplayingRef s) \<and>
         (VisualSync \<in> set (snd (animate step now now' s)) \<longleftrightarrow> \<not> isReplayingRef s) \<and>
         ((\<exists>fr. PoseImposed fr \<in> set (snd (animate step now now' s))) \<longrightarrow> isReplayingRef s) \<and>
         (\<not> isReplayingRef s \<longrightarrow>
            animate step now now' s =
              (s\<lparr>lastTime := now, objectsRef := map syncMesh (step (robotArmRef s) (objectsRef s))\<rparr>,
               [PhysicsStep, VisualSync, Render])) \<and>
         (isReplayingRef s \<longrightarrow>
            animate step now now' s =
              (fst (replayFrame now' (s\<lparr>lastTime := now\<rparr>)),
               snd (replayFrame now' (s\<lparr>lastTime := now\<rparr>)) @ [Render]) \<and>
            (fst (animate step now now' s) = s\<lparr>lastTime := now\<rparr> \<or>
             fst (animate step now now' s) = stopReplay (s\<lparr>lastTime := now\<rparr>) \<or>
             (\<exists>fr. fr \<in> set (recordingData s) \<and>
                   fst (animate step now now' s) = imposeFrame fr (s\<lparr>lastTime := now\<rparr>))))"
proof (cases "isReplayingRef s")
  case True
  have an: "animate step now now' s =
              (fst (replayFrame now' (s\<lparr>lastTime := now\<rparr>)),
               snd (replayFrame now' (s\<lparr>lastTime := now\<rparr>)) @ [Render])"
    using True assms by (simp add: animate_def Let_def split_beta)
  have "PhysicsStep \<notin> set (snd (animate step now now' s))"
    and "VisualSync \<notin> set (snd (animate step now now' s))"
    using replayFrame_effects [of now' "s\<lparr>lastTime := now\<rparr>"] by (auto simp: an)
  moreover have "fst (animate step now now' s) = s\<lparr>lastTime := now\<rparr> \<or>
             fst (animate step now now' s) = stopReplay (s\<lparr>lastTime := now\<rparr>) \<or>
             (\<exists>fr. fr \<in> set (recordingData s) \<and>
                   fst (animate step now now' s) = imposeFrame fr (s\<lparr>lastTime := now\<rparr>))"
    using replayFrame_outcomes [of now' "s\<lparr>lastTime := now\<rparr>"] by (simp add: an)
  ultimately show ?thesis using True an by simp
next
  case False
  then have "animate step now now' s =
     (s\<lparr>lastTime := now, objectsRef := map syncMesh (step (robotArmRef s) (objectsRef s))\<rparr>,
      [PhysicsStep, VisualSync, Render])"
    using assms by (simp add: animate_def Let_def)
  with False show ?thesis by simp
qed

theorem physics_excludes_replay_witness:
  "isMounted readyState \<and> worldRef readyState \<and> \<not> isReplayingRef readyState \<and>
   snd (animate exampleStep 16 17 readyState) = [PhysicsStep, VisualSync, Render] \<and>
   map body_translation (objectsRef (fst (animate exampleStep 16 17 readyState))) =
     [\<lparr>vx = 3 / 2, vy = 73 / 200, vz = - 1\<rparr>] \<and>
   map mesh_position (objectsRef (fst (animate exampleStep 16 17 readyState))) =
     [\<lparr>vx = 3 / 2, vy = 73 / 200, vz = - 1\<rparr>] \<and>
   isMounted replayingState \<and> worldRef replayingState \<and> isReplayingRef replayingState \<and>
   PhysicsStep \<notin> set (snd (animate exampleStep 1150 1150 replayingState)) \<and>
   VisualSync \<notin> set (snd (animate exampleStep 1150 1150 replayingState)) \<and>
   animate exampleStep 1150 1150 replayingState =
     (imposeFrame (exampleFrame 200 (7 / 20)) (replayingState\<lparr>lastTime := 1150\<rparr>),
      [PoseImposed (exampleFrame 200 (7 / 20)), Render])"
proof -
  have h: "isMounted readyState" "worldRef readyState" "\<not> isReplayingRef readyState"
    by (simp_all add: readyState_def)
  have k: "isMounted replayingState" "worldRef replayingState" "isReplayingRef replayingState"
    by (simp_all add: replayingState_def readyState_def)
  have r: "replayFrame 1150 (replayingState\<lparr>lastTime := 1150\<rparr>) =
             (imposeFrame (exampleFrame 200 (7 / 20)) (replayingState\<lparr>lastTime := 1150\<rparr>),
              [PoseImposed (exampleFrame 200 (7 / 20))])"
    by (simp add: replayFrame_def replayingState_def readyState_def exampleFrame_def Let_def)
  from physics_excludes_replay [OF h(1,2), of exampleStep 16 17] h(3)
  have live: "animate exampleStep 16 17 readyState =
      (readyState\<lparr>lastTime := 16,
         objectsRef := map syncMesh (exampleStep (robotArmRef readyState) (objectsRef readyState))\<rparr>,
       [PhysicsStep, VisualSync, Render])" by blast
  then have 1: "snd (animate exampleStep 16 17 readyState) = [PhysicsStep, VisualSync, Render]"
    by simp
  have 6: "map body_translation (objectsRef (fst (animate exampleStep 16 17 readyState))) =
             [\<lparr>vx = 3 / 2, vy = 73 / 200, vz = - 1\<rparr>]"
    and 7: "map mesh_position (objectsRef (fst (animate exampleStep 16 17 readyState))) =
             [\<lparr>vx = 3 / 2, vy = 73 / 200, vz = - 1\<rparr>]"
    unfolding live by (simp_all add: readyState_def exampleStep_def exampleCube_def syncMesh_def)
  from physics_excludes_replay [OF k(1,2), of exampleStep 1150 1150] k(3)
  have 2: "PhysicsStep \<notin> set (snd (animate exampleStep 1150 1150 replayingState))"
    and 3: "VisualSync \<notin> set (snd (animate exampleStep 1150 1150 replayingState))"
    and 4: "animate exampleStep 1150 1150 replayingState =
              (fst (replayFrame 1150 (replayingState\<lparr>lastTime := 1150\<rparr>)),
               snd (replayFrame 1150 (replayingState\<lparr>lastTime := 1150\<rparr>)) @ [Render])"
    by blast+
  have 5: "animate exampleStep 1150 1150 replayingState =
     (imposeFrame (exampleFrame 200 (7 / 20)) (replayingState\<lparr>lastTime := 1150\<rparr>),
      [PoseImposed (exampleFrame 200 (7 / 20)), Render])"
    unfolding 4 r by simp
  show ?thesis
    by (intro conjI) (fact h k 1 2 3 5 6 7)+
qed

text \<open>
  The statement above is about the animation tick. The pointer handlers run outside it and
  carry no replay guard: a drag moves the robot arm whether the replayer is playing or not.
\<close>

lemma pointer_ignores_replay:
  "pointer ix iz s =
     s\<lparr>robotArmRef := map_option (setPosition \<lparr>vx = ix, vy = ROBOT_ARM_Y, vz = iz\<rparr>) (robotArmRef s)\<rparr> \<and>
   isReplayingRef (pointer ix iz s) = isReplayingRef s"
  by (simp add: pointer_def)

section \<open>Orientation through record and replay\<close>

lemma imposeObjects_quaternion:
  "length objs = length objs0 \<Longrightarrow>
   map mesh_quaternion (imposeObjects (map objectState objs0) objs) = map mesh_quaternion objs0 \<and>
   map body_rotation (imposeObjects (map objectState objs0) objs) = map mesh_quaternion objs0"
proof (induction objs0 arbitrary: objs)
  case Nil
  then show ?case by simp
next
  case (Cons o0 os0)
  then obtain ob obs where objs: "objs = ob # obs" by (cases objs) auto
  with Cons.prems have len: "length obs = length os0" by simp
  have q: "mesh_quaternion (imposeObject (objectState o0) ob) = mesh_quaternion o0 \<and>
           body_rotation (imposeObject (objectState o0) ob) = mesh_quaternion o0"
    by (simp add: imposeObject_def objectState_def Let_def)
  from Cons.IH [OF len] q show ?case by (simp add: objs)
qed

lemma foldl_append_start: "foldl (\<lambda>row x. row @ g x) a xs = a @ concat (map g xs)"
  by (induction xs arbitrary: a) auto

text \<open>
  C10. For every object and every recorded frame, the orientation quaternion survives the
  round trip: \<^verbatim>\<open>recordFixedFrame\<close> stores each object's quaternion with its \<open>y\<close> and
  \<open>z\<close> channels exchanged, and imposing the recorded frame on a scene with the same
  objects exchanges them back, so that the quaternion written to each mesh and to each
  body is the object's quaternion at capture time. The CSV row of the frame prints the
  stored channels as they are: the column \<^verbatim>\<open>Rot_Y\<close> holds the mesh's \<open>z\<close> and
  \<^verbatim>\<open>Rot_Z\<close> its \<open>y\<close>.
\<close>

theorem quaternion_round_trip:
  assumes "robotArmRef s = Some arm"
  shows "recordingData (recordFixedFrame s) \<noteq> [] \<and>
         map rotation (objects (last (recordingData (recordFixedFrame s)))) =
           map (\<lambda>obj. swapYZ (mesh_quaternion obj)) (objectsRef s) \<and>
         (\<forall>s'. length (objectsRef s') = length (objectsRef s) \<longrightarrow>
               map mesh_quaternion (objectsRef (imposeFrame (last (recordingData (recordFixedFrame s))) s')) =
                 map mesh_quaternion (objectsRef s) \<and>
               map body_rotation (objectsRef (imposeFrame (last (recordingData (recordFixedFrame s))) s')) =
                 map mesh_quaternion (objectsRef s)) \<and>
         (\<forall>nts. csvRow nts (last (recordingData (recordFixedFrame s))) =
                toFixed nts 3 (timestamp (last (recordingData (recordFixedFrame s)))) @ '','' @
                toFixed nts 6 (vx (robotArm (last (recordingData (recordFixedFrame s))))) @ '','' @
                toFixed nts 6 (vy (robotArm (last (recordingData (recordFixedFrame s))))) @ '','' @
                toFixed nts 6 (vz (robotArm (last (recordingData (recordFixedFrame s))))) @
                concat (map (\<lambda>obj.
                    '','' @ toFixed nts 6 (fst (normalizeCoordinates (vx (mesh_position obj))
                                                (vy (mesh_position obj)) (vz (mesh_position obj)))) @
                    '','' @ toFixed nts 6 (snd (normalizeCoordinates (vx (mesh_position obj))
                                                (vy (mesh_position obj)) (vz (mesh_position obj)))) @
                    '','' @ toFixed nts 6 (76 / 100) @
                    '','' @ toFixed nts 6 (qx (mesh_quaternion obj)) @
                    '','' @ toFixed nts 6 (qz (mesh_quaternion obj)) @
                    '','' @ toFixed nts 6 (qy (mesh_quaternion obj)) @
                    '','' @ toFixed nts 6 (qw (mesh_quaternion obj))) (objectsRef s)))"
proof -
  let ?fr = "last (recordingData (recordFixedFrame s))"
  have objs: "objects ?fr = map objectState (objectsRef s)"
    using assms by (simp add: recordFixedFrame_def Let_def)
  have ne: "recordingData (recordFixedFrame s) \<noteq> []"
    using assms by (simp add: recordFixedFrame_def Let_def)
  have rot: "map rotation (objects ?fr) = map (\<lambda>obj. swapYZ (mesh_quaternion obj)) (objectsRef s)"
    by (simp add: objs objectState_def swapYZ_def Let_def)
  have imp: "\<And>s'. length (objectsRef s') = length (objectsRef s) \<Longrightarrow>
               map mesh_quaternion (objectsRef (imposeFrame ?fr s')) = map mesh_quaternion (objectsRef s) \<and>
               map body_rotation (objectsRef (imposeFrame ?fr s')) = map mesh_quaternion (objectsRef s)"
    using imposeObjects_quaternion [of _ "objectsRef s"] by (simp add: imposeFrame_def Let_def objs)
  have csv: "\<And>nts. csvRow nts ?fr =
                toFixed nts 3 (timestamp ?fr) @ '','' @ toFixed nts 6 (vx (robotArm ?fr)) @ '','' @
                toFixed nts 6 (vy (robotArm ?fr)) @ '','' @ toFixed nts 6 (vz (robotArm ?fr)) @
                concat (map (\<lambda>obj.
                    '','' @ toFixed nts 6 (fst (normalizeCoordinates (vx (mesh_position obj))
                                                (vy (mesh_position obj)) (vz (mesh_position obj)))) @
                    '','' @ toFixed nts 6 (snd (normalizeCoordinates (vx (mesh_position obj))
                                                (vy (mesh_position obj)) (vz (mesh_position obj)))) @
                    '','' @ toFixed nts 6 (76 / 100) @
                    '','' @ toFixed nts 6 (qx (mesh_quaternion obj)) @
                    '','' @ toFixed nts 6 (qz (mesh_quaternion obj)) @
                    '','' @ toFixed nts 6 (qy (mesh_quaternion obj)) @
                    '','' @ toFixed nts 6 (qw (mesh_quaternion obj))) (objectsRef s))"
    unfolding csvRow_def foldl_append_start objs
    by (simp add: objectFields_def objectState_def Let_def comp_def)
  from ne rot imp csv show ?thesis by blast
qed

theorem quaternion_round_trip_witness:
  "robotArmRef readyState = Some \<lparr>arm_position = \<lparr>vx = 0, vy = 4 / 10, vz = 0\<rparr>,
                                  arm_body = Some \<lparr>vx = 0, vy = 4 / 10, vz = 0\<rparr>\<rparr> \<and>
   length (objectsRef uprightState) = length (objectsRef readyState) \<and>
   map mesh_quaternion (objectsRef uprightState) = [\<lparr>qx = 0, qy = 0, qz = 0, qw = 1\<rparr>] \<and>
   map mesh_quaternion (objectsRef readyState) = [\<lparr>qx = 0, qy = 3 / 5, qz = 0, qw = 4 / 5\<rparr>] \<and>
   map rotation (objects (last (recordingData (recordFixedFrame readyState)))) =
     [\<lparr>qx = 0, qy = 0, qz = 3 / 5, qw = 4 / 5\<rparr>] \<and>
   map mesh_quaternion (objectsRef (imposeFrame (last (recordingData (recordFixedFrame readyState))) uprightState)) =
     [\<lparr>qx = 0, qy = 3 / 5, qz = 0, qw = 4 / 5\<rparr>] \<and>
   map body_rotation (objectsRef (imposeFrame (last (recordingData (recordFixedFrame readyState))) uprightState)) =
     [\<lparr>qx = 0, qy = 3 / 5, qz = 0, qw = 4 / 5\<rparr>]"
proof -
  have h: "robotArmRef readyState = Some \<lparr>arm_position = \<lparr>vx = 0, vy = 4 / 10, vz = 0\<rparr>,
                                  arm_body = Some \<lparr>vx = 0, vy = 4 / 10, vz = 0\<rparr>\<rparr>"
    by (simp add: readyState_def)
  have len: "length (objectsRef uprightState) = length (objectsRef readyState)"
    by (simp add: uprightState_def readyState_def)
  have q0: "map mesh_quaternion (objectsRef readyState) = [\<lparr>qx = 0, qy = 3 / 5, qz = 0, qw = 4 / 5\<rparr>]"
    by (simp add: readyState_def exampleCube_def)
  have q1: "map mesh_quaternion (objectsRef uprightState) = [\<lparr>qx = 0, qy = 0, qz = 0, qw = 1\<rparr>]"
    by (simp add: uprightState_def)
  have sw: "map (\<lambda>obj. swapYZ (mesh_quaternion obj)) (objectsRef readyState) =
              [\<lparr>qx = 0, qy = 0, qz = 3 / 5, qw = 4 / 5\<rparr>]"
    by (simp add: readyState_def exampleCube_def swapYZ_def)
  from quaternion_round_trip [OF h] len
  have "map rotation (objects (last (recordingData (recordFixedFrame readyState)))) =
           map (\<lambda>obj. swapYZ (mesh_quaternion obj)) (objectsRef readyState)"
    and "map mesh_quaternion (objectsRef (imposeFrame (last (recordingData (recordFixedFrame readyState))) uprightState)) =
           map mesh_quaternion (objectsRef readyState)"
    and "map body_rotation (objectsRef (imposeFrame (last (recordingData (recordFixedFrame readyState))) uprightState)) =
           map mesh_quaternion (objectsRef readyState)"
    by blast+
  with h len q0 q1 sw show ?thesis by simp
qed

section \<open>Outcome of the verification\<close>

lemma upper_verified: "toUpperCase ''verified'' = ''VERIFIED''"
  by (simp add: toUpperCase_def upperChar_def)

lemma isVerified_lowercase: "isVerified (Answer (TextString ''verified'')) = Some True"
  by (simp add: isVerified_def upper_verified)

text \<open>
  C9 as stated speaks of the text containing \<^verbatim>\<open>VERIFIED\<close>. The code upper-cases the
  text first, so the answer \<^verbatim>\<open>verified\<close> is reported as success although it does not
  contain \<^verbatim>\<open>VERIFIED\<close>.
\<close>

theorem verified_case_counterexample:
  "snd (verifyWithGemini ''key'' True (Answer (TextString ''verified'')) idleVerifier) = [True] \<and>
   \<not> includes_str ''verified'' ''VERIFIED''"
  by (simp add: verifyWithGemini_def isVerified_lowercase trim_def isSpace_def)

lemma verifyWithGemini_isVerified:
  assumes "trim apiKey \<noteq> []" and "rendererReady"
  shows "verifyWithGemini apiKey rendererReady resp v =
           (v\<lparr>isVerifying := False,
              verificationResult := Some (if isVerified resp = Some True then Success else Failed)\<rparr>,
            [isVerified resp = Some True])"
proof (cases "isVerified resp")
  case None
  with assms show ?thesis by (simp add: verifyWithGemini_def)
next
  case (Some b)
  with assms show ?thesis by (cases b) (simp_all add: verifyWithGemini_def)
qed

lemma isVerified_Some_True:
  "isVerified resp = Some True \<longleftrightarrow>
     (\<exists>t. resp = Answer (TextString t) \<and> includes_str (toUpperCase t) ''VERIFIED'' \<and>
          \<not> includes_str (toUpperCase t) ''NOT_VERIFIED'')"
proof (cases resp)
  case (Answer c)
  have e: "\<not> includes_str (toUpperCase []) ''VERIFIED''" by (simp add: toUpperCase_def)
  show ?thesis
  proof (cases c)
    case NoText
    with Answer e show ?thesis by (simp add: isVerified_def)
  next
    case (TextString t)
    with Answer show ?thesis by (simp add: isVerified_def)
  next
    case (TextOther b)
    with Answer e show ?thesis by (cases b) (simp_all add: isVerified_def)
  qed
qed (simp_all add: isVerified_def)

text \<open>
  C9, as the code has it. When a request is made (the API key is not blank and the
  renderer is ready), the adapter reports success, \<^verbatim>\<open>onVerify(true)\<close>, if and only if the
  candidate text is a string whose upper-cased form contains \<^verbatim>\<open>VERIFIED\<close> and does not
  contain \<^verbatim>\<open>NOT_VERIFIED\<close>: the match ignores case. Otherwise it reports failure,
  \<^verbatim>\<open>onVerify(false)\<close>, exactly once; in particular a network failure, a body that is not
  JSON, an HTTP error or a response without a usable text ends in the failed outcome
  with the adapter no longer verifying, and the function returns.
\<close>

theorem verification_outcome:
  assumes "trim apiKey \<noteq> []" and "rendererReady"
  shows "(snd (verifyWithGemini apiKey rendererReady resp v) = [True] \<longleftrightarrow>
            (\<exists>t. resp = Answer (TextString t) \<and> includes_str (toUpperCase t) ''VERIFIED'' \<and>
                 \<not> includes_str (toUpperCase t) ''NOT_VERIFIED'')) \<and>
         (snd (verifyWithGemini apiKey rendererReady resp v) \<noteq> [True] \<longrightarrow>
            snd (verifyWithGemini apiKey rendererReady resp v) = [False]) \<and>
         (resp = NetworkFailure \<or> resp = MalformedBody \<or> resp = HttpError \<or>
          resp = Answer NoText \<or> (\<exists>b. resp = Answer (TextOther b)) \<longrightarrow>
            fst (verifyWithGemini apiKey rendererReady resp v) =
              v\<lparr>isVerifying := False, verificationResult := Some Failed\<rparr> \<and>
            snd (verifyWithGemini apiKey rendererReady resp v) = [False])"
proof -
  note v = verifyWithGemini_isVerified [OF assms, of resp v]
  have 1: "snd (verifyWithGemini apiKey rendererReady resp v) = [True] \<longleftrightarrow>
            (\<exists>t. resp = Answer (TextString t) \<and> includes_str (toUpperCase t) ''VERIFIED'' \<and>
                 \<not> includes_str (toUpperCase t) ''NOT_VERIFIED'')"
    using isVerified_Some_True [of resp] by (simp add: v)
  have 2: "snd (verifyWithGemini apiKey rendererReady resp v) \<noteq> [True] \<longrightarrow>
            snd (verifyWithGemini apiKey rendererReady resp v) = [False]"
    by (simp add: v)
  have 3: "resp = NetworkFailure \<or> resp = MalformedBody \<or> resp = HttpError \<or>
          resp = Answer NoText \<or> (\<exists>b. resp = Answer (TextOther b)) \<longrightarrow>
            fst (verifyWithGemini apiKey rendererReady resp v) =
              v\<lparr>isVerifying := False, verificationResult := Some Failed\<rparr> \<and>
            snd (verifyWithGemini apiKey rendererReady resp v) = [False]"
    using isVerified_Some_True [of resp] by (auto simp: v)
  from 1 2 3 show ?thesis by blast
qed

theorem verification_outcome_witness:
  "trim ''key'' \<noteq> [] \<and>
   snd (verifyWithGemini ''key'' True (Answer (TextString ''Verified.'')) idleVerifier) = [True] \<and>
   snd (verifyWithGemini ''key'' True (Answer (TextString ''not_verified'')) idleVerifier) = [False] \<and>
   snd (verifyWithGemini ''key'' True NetworkFailure idleVerifier) = [False] \<and>
   fst (verifyWithGemini ''key'' True MalformedBody idleVerifier) =
     \<lparr>isVerifying = False, verificationResult = Some Failed\<rparr>"
proof -
  have k: "trim ''key'' \<noteq> []" by (simp add: trim_def isSpace_def)
  have u1: "toUpperCase ''Verified.'' = ''VERIFIED.''"
    and u2: "toUpperCase ''not_verified'' = ''NOT_VERIFIED''"
    by (simp_all add: toUpperCase_def upperChar_def)
  have a: "includes_str (toUpperCase ''Verified.'') ''VERIFIED'' \<and>
        \<not> includes_str (toUpperCase ''Verified.'') ''NOT_VERIFIED''"
    by (simp add: u1)
  have b: "includes_str (toUpperCase ''not_verified'') ''NOT_VERIFIED''"
    by (simp add: u2)
  from verification_outcome [OF k, of True "Answer (TextString ''Verified.'')" idleVerifier] a
  have 1: "snd (verifyWithGemini ''key'' True (Answer (TextString ''Verified.'')) idleVerifier) = [True]"
    by blast
  from verification_outcome [OF k, of True "Answer (TextString ''not_verified'')" idleVerifier] b
  have 2: "snd (verifyWithGemini ''key'' True (Answer (TextString ''not_verified'')) idleVerifier) = [False]"
    by blast
  from verification_outcome [OF k, of True NetworkFailure idleVerifier]
  have 3: "snd (verifyWithGemini ''key'' True NetworkFailure idleVerifier) = [False]" by blast
  from verification_outcome [OF k, of True MalformedBody idleVerifier]
  have 4: "fst (verifyWithGemini ''key'' True MalformedBody idleVerifier) =
     \<lparr>isVerifying = False, verificationResult = Some Failed\<rparr>" by (simp add: idleVerifier_def)
  from k 1 2 3 4 show ?thesis by blast
qed

section \<open>Placement and clearance\<close>

lemma gridSize_two: "nat \<lceil>sqrt (real numObjects)\<rceil> = 2"
proof -
  have "1 < sqrt 3" by (intro real_less_rsqrt) simp
  moreover have "sqrt 3 \<le> 2" by (intro real_le_lsqrt) simp_all
  ultimately have "\<lceil>sqrt 3\<rceil> = 2" by (intro ceiling_unique) simp_all
  then show ?thesis by (simp add: numObjects_def)
qed

lemma candidate_range:
  assumes "0 \<le> r" and "r < 1"
  shows "\<bar>candidate r\<bar> \<le> 175 / 100"
proof -
  have "candidate r = r * (35 / 10) - 175 / 100" by (simp add: candidate_def field_simps)
  moreover from assms have "- (175 / 100) \<le> r * (35 / 10) - 175 / 100" by simp
  moreover from assms have "r * (35 / 10) - 175 / 100 \<le> 175 / 100" by simp
  ultimately show ?thesis unfolding abs_le_iff by linarith
qed

lemma near_in_square:
  assumes "\<bar>x\<bar> \<le> 175 / 100" "\<bar>z\<bar> \<le> 175 / 100" "\<bar>a\<bar> \<le> 175 / 100" "\<bar>b\<bar> \<le> 175 / 100"
  shows "sqrt ((x - a) ^ 2 + (z - b) ^ 2) < 54 / 10"
proof -
  have "\<bar>x - a\<bar> \<le> 35 / 10" and "\<bar>z - b\<bar> \<le> 35 / 10" using assms by linarith+
  then have "(x - a) ^ 2 \<le> (35 / 10) ^ 2" and "(z - b) ^ 2 \<le> (35 / 10) ^ 2"
    by (metis abs_ge_zero power2_abs power_mono)+
  then have "(x - a) ^ 2 + (z - b) ^ 2 < (54 / 10) ^ 2" by (simp add: power2_eq_square)
  then show ?thesis by (intro real_less_lsqrt) simp_all
qed

lemma crowded_invalid:
  assumes "occ \<noteq> []" and "list_all inSquare occ" and "\<bar>x\<bar> \<le> 175 / 100" and "\<bar>z\<bar> \<le> 175 / 100"
  shows "\<not> isPositionValid occ x z (9 / 10)"
proof -
  from assms(1) obtain p ps where occ: "occ = p # ps" by (cases occ) auto
  with assms(2) have p: "\<bar>occ_x p\<bar> \<le> 175 / 100" "\<bar>occ_z p\<bar> \<le> 175 / 100" "occ_radius p = 9 / 10"
    by (simp_all add: inSquare_def)
  from near_in_square [OF assms(3,4) p(1,2)]
  have "sqrt ((x - occ_x p) ^ 2 + (z - occ_z p) ^ 2) < 9 / 10 * 4 + occ_radius p * 2"
    by (simp add: p(3))
  then show ?thesis by (simp add: isPositionValid_def Let_def occ)
qed

lemma sampleLoop_exhausts:
  "(\<forall>k. \<not> isPositionValid occ (candidate (rand k)) (candidate (rand (k + 1))) radius) \<Longrightarrow>
   attempts < maxAttempts \<Longrightarrow>
   fst (snd (snd (sampleLoop rand occ radius k attempts))) = maxAttempts"
proof (induction rand occ radius k attempts rule: sampleLoop.induct)
  case (1 rand occ radius k attempts)
  show ?case
  proof (cases "attempts + 1 < maxAttempts")
    case True
    with "1.prems" have go: "\<not> isPositionValid occ (candidate (rand k)) (candidate (rand (k + 1))) radius \<and>
         attempts + 1 < maxAttempts" by simp
    from "1.IH" [OF go "1.prems"(1) True]
    have "fst (snd (snd (sampleLoop rand occ radius (k + 2) (attempts + 1)))) = maxAttempts" .
    with go show ?thesis by (subst sampleLoop.simps) simp
  next
    case False
    with "1.prems" have "attempts + 1 = maxAttempts" by simp
    with False show ?thesis by (subst sampleLoop.simps) simp
  qed
qed

lemma sampleLoop_in_range:
  "(\<forall>k. 0 \<le> rand k \<and> rand k < 1) \<Longrightarrow>
   \<bar>fst (sampleLoop rand occ radius k attempts)\<bar> \<le> 175 / 100 \<and>
   \<bar>fst (snd (sampleLoop rand occ radius k attempts))\<bar> \<le> 175 / 100"
proof (induction rand occ radius k attempts rule: sampleLoop.induct)
  case (1 rand occ radius k attempts)
  show ?case
  proof (cases "\<not> isPositionValid occ (candidate (rand k)) (candidate (rand (k + 1))) radius \<and>
         attempts + 1 < maxAttempts")
    case True
    from "1.IH" [OF True "1.prems"] True show ?thesis by (subst (1 2) sampleLoop.simps) simp
  next
    case False
    from "1.prems" have "0 \<le> rand k" "rand k < 1" "0 \<le> rand (k + 1)" "rand (k + 1) < 1"
      by blast+
    then have "\<bar>candidate (rand k)\<bar> \<le> 175 / 100" and "\<bar>candidate (rand (k + 1))\<bar> \<le> 175 / 100"
      by (blast intro: candidate_range)+
    with False show ?thesis by (subst (1 2) sampleLoop.simps) auto
  qed
qed

lemma placeObject_crowded:
  assumes "\<forall>k. 0 \<le> rand k \<and> rand k < 1" and "occ \<noteq> []" and "list_all inSquare occ"
  shows "fst (placeObject rand (occ, k)) =
           occ @ [\<lparr>occ_x = (real (length occ mod 2) - 1) * (12 / 10),
                    occ_z = (real_of_int \<lfloor>real (length occ) / 2\<rfloor> - 1) * (12 / 10),
                    occ_radius = 9 / 10\<rparr>]"
proof -
  have "\<forall>j. \<not> isPositionValid occ (candidate (rand j)) (candidate (rand (j + 1))) (9 / 10)"
    using assms by (intro allI crowded_invalid candidate_range) auto
  then have "fst (snd (snd (sampleLoop rand occ (9 / 10) k 0))) = maxAttempts"
    by (intro sampleLoop_exhausts) (simp_all add: maxAttempts_def)
  then show ?thesis
    by (simp add: placeObject_def Let_def split_beta gridSize_two)
qed

lemma placeObject_first:
  assumes "\<forall>k. 0 \<le> rand k \<and> rand k < 1"
  shows "\<exists>p. fst (placeObject rand ([], k)) = [p] \<and> inSquare p"
proof (cases "fst (snd (snd (sampleLoop rand [] (9 / 10) k 0))) \<ge> maxAttempts")
  case True
  then have "fst (placeObject rand ([], k)) = [\<lparr>occ_x = - (12 / 10), occ_z = - (12 / 10), occ_radius = 9 / 10\<rparr>]"
    by (simp add: placeObject_def Let_def split_beta gridSize_two)
  then show ?thesis by (simp add: inSquare_def)
next
  case False
  then have "fst (placeObject rand ([], k)) =
     [\<lparr>occ_x = fst (sampleLoop rand [] (9 / 10) k 0),
       occ_z = fst (snd (sampleLoop rand [] (9 / 10) k 0)), occ_radius = 9 / 10\<rparr>]"
    by (simp add: placeObject_def Let_def split_beta)
  with sampleLoop_in_range [OF assms, of "[]" "9 / 10" k 0] show ?thesis
    by (simp add: inSquare_def)
qed

lemma placeObjects_unfold:
  "placeObjects rand = fst (placeObject rand (placeObject rand (placeObject rand ([], 0))))"
  by (simp add: placeObjects_def numObjects_def numeral_3_eq_3)

lemma placeObjects_shape:
  assumes "\<forall>k. 0 \<le> rand k \<and> rand k < 1"
  shows "\<exists>p. inSquare p \<and> fst (placeObject rand ([], 0)) = [p] \<and>
             placeObjects rand =
               [p, \<lparr>occ_x = 0, occ_z = - (12 / 10), occ_radius = 9 / 10\<rparr>,
                \<lparr>occ_x = - (12 / 10), occ_z = 0, occ_radius = 9 / 10\<rparr>]"
proof -
  from placeObject_first [OF assms, of 0] obtain p where
    p: "fst (placeObject rand ([], 0)) = [p]" "inSquare p" by blast
  obtain k1 where s1: "placeObject rand ([], 0) = ([p], k1)"
    using p(1) by (cases "placeObject rand ([], 0)") simp
  let ?g1 = "\<lparr>occ_x = 0, occ_z = - (12 / 10), occ_radius = 9 / 10\<rparr>"
  let ?g2 = "\<lparr>occ_x = - (12 / 10), occ_z = 0, occ_radius = 9 / 10\<rparr>"
  have "fst (placeObject rand ([p], k1)) = [p, ?g1]"
    using placeObject_crowded [OF assms, of "[p]" k1] p(2) by simp
  then obtain k2 where s2: "placeObject rand ([p], k1) = ([p, ?g1], k2)"
    by (cases "placeObject rand ([p], k1)") simp
  have "inSquare ?g1" by (simp add: inSquare_def)
  then have "fst (placeObject rand ([p, ?g1], k2)) = [p, ?g1, ?g2]"
    using placeObject_crowded [OF assms, of "[p, ?g1]" k2] p(2) by simp
  with s1 s2 p show ?thesis by (simp add: placeObjects_unfold)
qed

text \<open>
  C5 asks that at scene setup no two clearance disks of placed objects overlap and that
  the end-effector's disk overlaps none of them, the grid fallback included. The code
  does otherwise in every run. A candidate for the second or third object would have to
  be \<open>5.4\<close> away from a placed object, which no two points of the sampling square are,
  so these two objects always land on the grid, at \<open>(0, -1.2)\<close> and \<open>(-1.2, 0)\<close>,
  unchecked: each is \<open>1.2\<close> from the end-effector, less than the combined radii
  \<open>0.45 + 0.9\<close>, and they are less than \<open>0.9 + 0.9\<close> from each other. In the run of
  the example the first cube is accepted at \<open>(0.7, -1.75)\<close> and the second cube, on the
  grid, intersects it.
\<close>

theorem grid_fallback_ignores_clearance:
  assumes "\<forall>k. 0 \<le> rand k \<and> rand k < 1"
  shows "length (placeObjects rand) = 3 \<and>
         placeObjects rand ! 1 = \<lparr>occ_x = 0, occ_z = - (12 / 10), occ_radius = 9 / 10\<rparr> \<and>
         placeObjects rand ! 2 = \<lparr>occ_x = - (12 / 10), occ_z = 0, occ_radius = 9 / 10\<rparr> \<and>
         \<not> disksClear endEffectorDisk (placeObjects rand ! 1) \<and>
         \<not> disksClear endEffectorDisk (placeObjects rand ! 2) \<and>
         \<not> disksClear (placeObjects rand ! 1) (placeObjects rand ! 2)"
proof -
  from placeObjects_shape [OF assms] obtain p where
    shape: "placeObjects rand =
               [p, \<lparr>occ_x = 0, occ_z = - (12 / 10), occ_radius = 9 / 10\<rparr>,
                \<lparr>occ_x = - (12 / 10), occ_z = 0, occ_radius = 9 / 10\<rparr>]" by blast
  have a: "sqrt ((12 / 10) ^ 2) < 45 / 100 + 9 / 10" by (intro real_less_lsqrt) (simp_all add: power2_eq_square)
  have b: "sqrt ((12 / 10) ^ 2 + (12 / 10) ^ 2) < 9 / 10 + 9 / 10"
    by (intro real_less_lsqrt) (simp_all add: power2_eq_square)
  from a b show ?thesis
    by (simp add: shape disksClear_def endEffectorDisk_def not_le)
qed

lemma placeObject_example:
  "fst (placeObject exampleRandom ([], 0)) = [\<lparr>occ_x = 7 / 10, occ_z = - (175 / 100), occ_radius = 9 / 10\<rparr>]"
proof -
  have c: "candidate (exampleRandom 0) = 7 / 10" "candidate (exampleRandom (Suc 0)) = - (175 / 100)"
    by (simp_all add: candidate_def exampleRandom_def)
  have "185 / 100 \<le> sqrt ((7 / 10) ^ 2 + (175 / 100) ^ 2)"
    by (intro real_le_rsqrt) (simp add: power2_eq_square)
  then have v: "isPositionValid [] (7 / 10) (- (175 / 100)) (9 / 10)"
    by (simp add: isPositionValid_def Let_def not_less)
  have "sampleLoop exampleRandom [] (9 / 10) 0 0 = (7 / 10, - (175 / 100), 1, 2)"
    by (subst sampleLoop.simps) (use v in \<open>simp add: c\<close>)
  then show ?thesis by (simp add: placeObject_def Let_def maxAttempts_def)
qed

theorem grid_fallback_ignores_clearance_witness:
  "(\<forall>k. 0 \<le> exampleRandom k \<and> exampleRandom k < 1) \<and>
   placeObjects exampleRandom ! 0 = \<lparr>occ_x = 7 / 10, occ_z = - (175 / 100), occ_radius = 9 / 10\<rparr> \<and>
   placeObjects exampleRandom ! 1 = \<lparr>occ_x = 0, occ_z = - (12 / 10), occ_radius = 9 / 10\<rparr> \<and>
   placeObjects exampleRandom ! 2 = \<lparr>occ_x = - (12 / 10), occ_z = 0, occ_radius = 9 / 10\<rparr> \<and>
   \<not> disksClear endEffectorDisk (placeObjects exampleRandom ! 1) \<and>
   \<not> disksClear (placeObjects exampleRandom ! 1) (placeObjects exampleRandom ! 2) \<and>
   cubesOverlap (placeObjects exampleRandom ! 0) (placeObjects exampleRandom ! 1)"
proof -
  have h: "\<forall>k. 0 \<le> exampleRandom k \<and> exampleRandom k < 1" by (simp add: exampleRandom_def)
  from placeObjects_shape [OF h] placeObject_example
  have 0: "placeObjects exampleRandom ! 0 = \<lparr>occ_x = 7 / 10, occ_z = - (175 / 100), occ_radius = 9 / 10\<rparr>"
    by auto
  note t = grid_fallback_ignores_clearance [OF h]
  from t have 1: "placeObjects exampleRandom ! 1 = \<lparr>occ_x = 0, occ_z = - (12 / 10), occ_radius = 9 / 10\<rparr>"
    by blast
  have "cubesOverlap (placeObjects exampleRandom ! 0) (placeObjects exampleRandom ! 1)"
    unfolding 0 1 by (simp add: cubesOverlap_def)
  with h 0 t show ?thesis by blast
qed

section \<open>Format of the exported file\<close>

lemma digitsOf_small: "n < 10 \<Longrightarrow> digitsOf n = [digitChar n]"
  by (subst digitsOf.simps) simp

lemma digitsOf_large: "\<not> n < 10 \<Longrightarrow> digitsOf n = digitsOf (n div 10) @ [digitChar (n mod 10)]"
  by (subst digitsOf.simps) simp

lemma isDigit_digitChar: "d < 10 \<Longrightarrow> isDigit (digitChar d)"
proof -
  assume "d < 10"
  then have "d < length ''0123456789''" by simp
  then have "''0123456789'' ! d \<in> set ''0123456789''" by (rule nth_mem)
  then show ?thesis by (simp only: isDigit_def digitChar_def)
qed

lemma digitsOf_digits: "digitsOf n \<noteq> [] \<and> list_all isDigit (digitsOf n)"
proof (induction n rule: digitsOf.induct)
  case (1 n)
  show ?case
  proof (cases "n < 10")
    case True
    then show ?thesis by (simp add: digitsOf_small isDigit_digitChar)
  next
    case False
    with "1.IH" show ?thesis by (simp add: digitsOf_large isDigit_digitChar)
  qed
qed

text \<open>The shape of a fixed-point numeral.\<close>

lemma toFixed_shape:
  assumes "\<bar>x\<bar> < 10 ^ 21" and "f \<noteq> 0"
  shows "\<exists>a b. toFixed nts f x = (if x < 0 then ''-'' else []) @ a @ ''.'' @ b \<and>
               a \<noteq> [] \<and> list_all isDigit a \<and> length b = f \<and> list_all isDigit b"
proof -
  define n where "n = nat \<lfloor>(if x < 0 then - x else x) * 10 ^ f + 1 / 2\<rfloor>"
  define m' where "m' = replicate (f + 1 - length (digitsOf n)) (CHR ''0'') @ digitsOf n"
  have d0: "isDigit (CHR ''0'')" by (simp add: isDigit_def)
  have dig: "list_all isDigit m'"
    using digitsOf_digits [of n] d0 by (auto simp: m'_def list_all_iff)
  have len: "f + 1 \<le> length m'" by (simp add: m'_def)
  have small: "\<not> (if x < 0 then - x else x) \<ge> 10 ^ 21" using assms(1) by (cases "x < 0") (simp_all add: abs_if not_le)
  have tf: "toFixed nts f x =
          (if x < 0 then ''-'' else []) @ take (length m' - f) m' @ ''.'' @ drop (length m' - f) m'"
    using small assms(2) unfolding toFixed_def Let_def n_def [symmetric] m'_def [symmetric]
    by simp
  have "take (length m' - f) m' \<noteq> []" using len by auto
  moreover have "list_all isDigit (take (length m' - f) m')"
    using dig by (auto simp: list_all_iff dest: in_set_takeD)
  moreover have "length (drop (length m' - f) m') = f" using len by simp
  moreover have "list_all isDigit (drop (length m' - f) m')"
    using dig by (auto simp: list_all_iff dest: in_set_dropD)
  ultimately show ?thesis using tf by blast
qed

lemma isFixedDecimal_shape:
  assumes "a \<noteq> []" and "list_all isDigit a" and "length b = k" and "list_all isDigit b"
    and that: "sg = ''-'' \<or> sg = []"
  shows "isFixedDecimal k (sg @ a @ ''.'' @ b)"
proof -
  have nd: "\<not> isDigit (CHR ''.'')" and nm: "\<not> isDigit (CHR ''-'')" by (simp_all add: isDigit_def)
  have tw: "takeWhile isDigit (a @ ''.'' @ b) = a"
    using assms(2) nd by (simp add: takeWhile_append2 list_all_iff)
  have dw: "dropWhile isDigit (a @ ''.'' @ b) = ''.'' @ b"
    using assms(2) nd by (simp add: dropWhile_append2 list_all_iff)
  from assms(1) obtain c cs where a: "a = c # cs" by (cases a) auto
  with assms(2) nm have c: "c \<noteq> CHR ''-''" by auto
  from that show ?thesis
  proof
    assume "sg = ''-''"
    then show ?thesis using tw dw assms by (simp add: isFixedDecimal_def)
  next
    assume s: "sg = []"
    have "isFixedDecimal k (a @ ''.'' @ b)"
      unfolding isFixedDecimal_def Let_def using tw dw assms c
      by (simp add: a)
    with s show ?thesis by simp
  qed
qed

lemma toFixed_isFixedDecimal:
  assumes "\<bar>x\<bar> < 10 ^ 21" and "f \<noteq> 0"
  shows "isFixedDecimal f (toFixed nts f x)"
proof -
  from toFixed_shape [OF assms, of nts] obtain a b where
    "toFixed nts f x = (if x < 0 then ''-'' else []) @ a @ ''.'' @ b"
    "a \<noteq> []" "list_all isDigit a" "length b = f" "list_all isDigit b" by blast
  then show ?thesis using isFixedDecimal_shape [of a b f "if x < 0 then ''-'' else []"] by simp
qed

lemma toFixed_chars:
  assumes "\<bar>x\<bar> < 10 ^ 21" and "f \<noteq> 0"
  shows "CHR '','' \<notin> set (toFixed nts f x) \<and> CHR 0x0A \<notin> set (toFixed nts f x)"
proof -
  from toFixed_shape [OF assms, of nts] obtain a b where
    tf: "toFixed nts f x = (if x < 0 then ''-'' else []) @ a @ ''.'' @ b"
    and d: "list_all isDigit a" "list_all isDigit b" by blast
  have "\<not> isDigit (CHR '','')" and "\<not> isDigit (CHR 0x0A)" by (simp_all add: isDigit_def)
  with d have "CHR '','' \<notin> set a \<and> CHR '','' \<notin> set b \<and> CHR 0x0A \<notin> set a \<and> CHR 0x0A \<notin> set b"
    by (auto simp: list_all_iff)
  then show ?thesis by (simp add: tf)
qed

lemma join_Cons: "join sep (x # xs) = x @ concat (map (\<lambda>y. sep @ y) xs)"
  by (induction xs arbitrary: x) simp_all

lemma splitOn_plain: "c \<notin> set w \<Longrightarrow> splitOn c w = [w]"
  by (induction w) auto

lemma splitOn_sep: "c \<notin> set w \<Longrightarrow> splitOn c (w @ c # rest) = w # splitOn c rest"
  by (induction w) auto

lemma splitOn_join:
  "xs \<noteq> [] \<Longrightarrow> \<forall>w \<in> set xs. c \<notin> set w \<Longrightarrow> splitOn c (join [c] xs) = xs"
proof (induction "[c]" xs rule: join.induct)
  case 1
  then show ?case by simp
next
  case (2 x)
  then show ?case by (simp add: splitOn_plain)
next
  case (3 x y ys)
  then show ?case by (simp add: splitOn_sep)
qed

lemma concat_map_pieces:
  "(\<And>x. f x = concat (map g (h x))) \<Longrightarrow> concat (map f xs) = concat (map g (concat (map h xs)))"
  by (induction xs) simp_all

lemma csvRow_join:
  "csvRow nts fr = join '','' (toFixed nts 3 (timestamp fr) # map (toFixed nts 6) (frameNumbers fr))"
proof -
  have "\<And>obj. objectFields nts obj = concat (map (\<lambda>y. '','' @ y) (map (toFixed nts 6) (objectNumbers obj)))"
    by (simp add: objectFields_def objectNumbers_def)
  then have "concat (map (objectFields nts) (objects fr)) =
        concat (map (\<lambda>y. '','' @ y) (map (toFixed nts 6) (concat (map objectNumbers (objects fr)))))"
    using concat_map_pieces [of "objectFields nts" "\<lambda>v. '','' @ toFixed nts 6 v" objectNumbers "objects fr"]
    by (simp add: comp_def)
  then show ?thesis
    by (simp add: csvRow_def foldl_append_start join_Cons frameNumbers_def)
qed

lemma csvHeader_join: "csvHeader n = join '','' (headerColumns n)"
proof -
  have "\<And>i. objectHeader i = concat (map (\<lambda>y. '','' @ y) (objectColumns (Suc i)))"
    by (simp add: objectHeader_def objectColumns_def)
  then have "concat (map objectHeader [0..<n]) =
               concat (map (\<lambda>y. '','' @ y) (concat (map objectColumns (map Suc [0..<n]))))"
    using concat_map_pieces [of objectHeader "\<lambda>y. '','' @ y" "\<lambda>i. objectColumns (Suc i)" "[0..<n]"]
    by (simp add: comp_def)
  then show ?thesis
    by (simp add: csvHeader_def foldl_append_start join_Cons headerColumns_def map_Suc_upt)
qed

lemma digits_no_separator: "CHR '','' \<notin> set (digitsOf i) \<and> CHR 0x0A \<notin> set (digitsOf i)"
proof -
  have "\<not> isDigit (CHR '','')" and "\<not> isDigit (CHR 0x0A)" by (simp_all add: isDigit_def)
  with digitsOf_digits [of i] show ?thesis by (auto simp: list_all_iff)
qed

lemma headerColumns_no_separator:
  "w \<in> set (headerColumns n) \<Longrightarrow> CHR '','' \<notin> set w \<and> CHR 0x0A \<notin> set w"
  using digits_no_separator by (auto simp: headerColumns_def objectColumns_def)

lemma join_no_newline:
  "\<forall>w \<in> set xs. CHR 0x0A \<notin> set w \<Longrightarrow> CHR 0x0A \<notin> set (join '','' xs)"
  by (induction "'',''" xs rule: join.induct) simp_all

text \<open>From \<open>10\<^sup>2\<^sup>1\<close> on, the numeral is whatever the exponent notation gives.\<close>

lemma toFixed_exponent: "10 ^ 21 \<le> x \<Longrightarrow> toFixed nts f x = nts x"
  by (simp add: toFixed_def Let_def)

text \<open>
  C8, as the code has it. When a recording is available, the export is the header row
  \<^verbatim>\<open>Timestamp,RobotArm_X,RobotArm_Y,RobotArm_Z\<close> followed by
  \<^verbatim>\<open>Object{i}_Pos_X/Y/Z\<close> and \<^verbatim>\<open>Object{i}_Rot_X/Y/Z/W\<close> for \<open>i = 1..N\<close> (\<open>N\<close> the number
  of objects of the first frame), then exactly one line per recorded frame, in buffer
  order. The fields of a line are separated by commas: the timestamp and then the
  \<open>3 + 7 * n\<close> numbers of the frame. Every number below \<open>10\<^sup>2\<^sup>1\<close> in magnitude is
  printed as a fixed-point numeral, the timestamp with 3 decimal digits and every other
  field with 6.
\<close>

theorem csv_export_format:
  assumes "hasRecording s" and "recordingData s \<noteq> []"
    and "\<forall>fr \<in> set (recordingData s).
           \<bar>timestamp fr\<bar> < 10 ^ 21 \<and> (\<forall>v \<in> set (frameNumbers fr). \<bar>v\<bar> < 10 ^ 21)"
  shows "\<exists>csv. saveRecordingAsCSV nts s = Some csv \<and>
           splitOn (CHR 0x0A) csv =
             csvHeader (length (objects (hd (recordingData s)))) # map (csvRow nts) (recordingData s) \<and>
           splitOn (CHR '','') (csvHeader (length (objects (hd (recordingData s))))) =
             headerColumns (length (objects (hd (recordingData s)))) \<and>
           (\<forall>fr \<in> set (recordingData s).
              splitOn (CHR '','') (csvRow nts fr) =
                toFixed nts 3 (timestamp fr) # map (toFixed nts 6) (frameNumbers fr) \<and>
              length (frameNumbers fr) = 3 + 7 * length (objects fr) \<and>
              isFixedDecimal 3 (toFixed nts 3 (timestamp fr)) \<and>
              (\<forall>v \<in> set (frameNumbers fr). isFixedDecimal 6 (toFixed nts 6 v)))"
proof -
  let ?n = "length (objects (hd (recordingData s)))"
  let ?fields = "\<lambda>fr. toFixed nts 3 (timestamp fr) # map (toFixed nts 6) (frameNumbers fr)"
  have fields: "\<forall>w \<in> set (?fields fr). CHR '','' \<notin> set w \<and> CHR 0x0A \<notin> set w"
    if "fr \<in> set (recordingData s)" for fr
    using assms(3) that toFixed_chars [of _ _ nts] by auto
  have row: "splitOn (CHR '','') (csvRow nts fr) = ?fields fr \<and> CHR 0x0A \<notin> set (csvRow nts fr)"
    if "fr \<in> set (recordingData s)" for fr
    using fields [OF that] splitOn_join [of "?fields fr" "CHR '',''"] join_no_newline [of "?fields fr"]
    by (simp add: csvRow_join)
  have hdr: "splitOn (CHR '','') (csvHeader ?n) = headerColumns ?n \<and> CHR 0x0A \<notin> set (csvHeader ?n)"
    using headerColumns_no_separator [of _ ?n] splitOn_join [of "headerColumns ?n" "CHR '',''"]
      join_no_newline [of "headerColumns ?n"]
    by (simp add: csvHeader_join headerColumns_def)
  have lines: "splitOn (CHR 0x0A) (join [CHR 0x0A] (csvHeader ?n # map (csvRow nts) (recordingData s))) =
                 csvHeader ?n # map (csvRow nts) (recordingData s)"
    using hdr row by (intro splitOn_join) auto
  have len: "length (frameNumbers fr) = 3 + 7 * length (objects fr)" for fr
    by (induction "objects fr" arbitrary: fr)
      (simp_all add: frameNumbers_def objectNumbers_def length_concat comp_def sum_list_triv)
  have dec: "isFixedDecimal 3 (toFixed nts 3 (timestamp fr)) \<and>
             (\<forall>v \<in> set (frameNumbers fr). isFixedDecimal 6 (toFixed nts 6 v))"
    if "fr \<in> set (recordingData s)" for fr
    using assms(3) that toFixed_isFixedDecimal [of _ _ nts] by auto
  have "saveRecordingAsCSV nts s =
          Some (join [CHR 0x0A] (csvHeader ?n # map (csvRow nts) (recordingData s)))"
    using assms(1,2) by (simp add: saveRecordingAsCSV_def Let_def)
  with lines hdr row len dec show ?thesis by auto
qed

lemma replicate_numeral: "replicate (numeral k) x = x # replicate (pred_numeral k) x"
  by (simp add: numeral_eq_Suc)

lemmas toFixed_eval = toFixed_def Let_def digitsOf_small digitsOf_large digitChar_def replicate_numeral

lemma toFixed_example: "toFixed noExponent 6 (- (1 / 15)) = ''-0.066667''"
  by (simp add: toFixed_eval)

lemma csvHeader_example: "csvHeader 1 = ''Timestamp,RobotArm_X,RobotArm_Y,RobotArm_Z,Object1_Pos_X,Object1_Pos_Y,Object1_Pos_Z,Object1_Rot_X,Object1_Rot_Y,Object1_Rot_Z,Object1_Rot_W''"
  by (simp add: csvHeader_def objectHeader_def digitsOf_small digitChar_def)


lemma csvRow_example: "csvRow noExponent (exampleFrame 0 (1 / 4)) = ''0.000,0.250000,0.000000,0.760000,0.350000,-0.066667,0.760000,0.000000,0.000000,0.600000,0.800000''"
  by (simp add: csvRow_def objectFields_def exampleFrame_def toFixed_eval)

lemma export_example: "saveRecordingAsCSV noExponent recordedState = Some exampleCsv"
proof -
  have "length (objects (exampleFrame 0 (1 / 4))) = 1" by (simp add: exampleFrame_def)
  with csvHeader_example csvRow_example show ?thesis
    by (simp add: saveRecordingAsCSV_def recordedState_def readyState_def Let_def exampleCsv_def)
qed


lemma specHeader_example:
  "join '','' (specHeaderColumns 1) = ''Timestamp,EndEffector_X,EndEffector_Y,EndEffector_Z,Object1_Pos_X,Object1_Pos_Y,Object1_Pos_Z,Object1_Rot_X,Object1_Rot_Y,Object1_Rot_Z,Object1_Rot_W''"
  by (simp add: specHeaderColumns_def objectColumns_def digitsOf_small digitChar_def)

text \<open>
  C8 as stated names the columns of the end-effector \<^verbatim>\<open>EndEffector_X/Y/Z\<close>. The file
  exported from the example state starts with the header the code writes, whose columns
  are \<^verbatim>\<open>RobotArm_X/Y/Z\<close>; it is not the header of the specification.
\<close>

theorem csv_header_counterexample:
  "saveRecordingAsCSV noExponent recordedState = Some exampleCsv \<and>
   hd (splitOn (CHR 0x0A) exampleCsv) = csvHeader 1 \<and>
   csvHeader 1 \<noteq> join '','' (specHeaderColumns 1)"
proof -
  have nl: "CHR 0x0A \<notin> set (csvHeader 1)" unfolding csvHeader_example by simp
  have eq: "exampleCsv = csvHeader 1 @ CHR 0x0A # csvRow noExponent (exampleFrame 0 (1 / 4))"
    unfolding exampleCsv_def csvHeader_example csvRow_example by simp
  have "splitOn (CHR 0x0A) exampleCsv =
               csvHeader 1 # splitOn (CHR 0x0A) (csvRow noExponent (exampleFrame 0 (1 / 4)))"
    unfolding eq by (rule splitOn_sep [OF nl])
  then have 1: "hd (splitOn (CHR 0x0A) exampleCsv) = csvHeader 1" by (simp only: list.sel)
  have 2: "csvHeader 1 \<noteq> join '','' (specHeaderColumns 1)"
    unfolding csvHeader_example specHeader_example by simp
  from export_example 1 2 show ?thesis by (intro conjI)
qed

theorem csv_export_format_witness:
  "hasRecording recordedState \<and> recordingData recordedState = [exampleFrame 0 (1 / 4)] \<and>
   list_all (\<lambda>v. \<bar>v\<bar> < 10 ^ 21)
     (timestamp (exampleFrame 0 (1 / 4)) # frameNumbers (exampleFrame 0 (1 / 4))) \<and>
   saveRecordingAsCSV noExponent recordedState = Some exampleCsv \<and>
   splitOn (CHR 0x0A) exampleCsv = [csvHeader 1, csvRow noExponent (exampleFrame 0 (1 / 4))] \<and>
   splitOn (CHR '','') (csvHeader 1) =
     [''Timestamp'', ''RobotArm_X'', ''RobotArm_Y'', ''RobotArm_Z'', ''Object1_Pos_X'', ''Object1_Pos_Y'',
      ''Object1_Pos_Z'', ''Object1_Rot_X'', ''Object1_Rot_Y'', ''Object1_Rot_Z'', ''Object1_Rot_W''] \<and>
   splitOn (CHR '','') (csvRow noExponent (exampleFrame 0 (1 / 4))) =
     [''0.000'', ''0.250000'', ''0.000000'', ''0.760000'', ''0.350000'', ''-0.066667'', ''0.760000'',
      ''0.000000'', ''0.000000'', ''0.600000'', ''0.800000''] \<and>
   isFixedDecimal 3 ''0.000'' \<and> isFixedDecimal 6 ''-0.066667''"
proof -
  let ?fr = "exampleFrame 0 (1 / 4)"
  have h1': "hasRecording recordedState" and buf: "recordingData recordedState = [?fr]"
    by (simp_all add: recordedState_def)
  have h2: "recordingData recordedState \<noteq> []" by (simp add: buf)
  have nums: "frameNumbers ?fr = [1 / 4, 0, 19 / 25, 7 / 20, - (1 / 15), 19 / 25, 0, 0, 3 / 5, 4 / 5]"
    and ts: "timestamp ?fr = 0"
    by (simp_all add: frameNumbers_def objectNumbers_def exampleFrame_def)
  have n1: "length (objects (hd (recordingData recordedState))) = 1"
    by (simp add: buf exampleFrame_def)
  have small: "list_all (\<lambda>v. \<bar>v\<bar> < 10 ^ 21) (timestamp ?fr # frameNumbers ?fr)"
    unfolding nums ts by simp
  then have h3: "\<forall>fr \<in> set (recordingData recordedState).
           \<bar>timestamp fr\<bar> < 10 ^ 21 \<and> (\<forall>v \<in> set (frameNumbers fr). \<bar>v\<bar> < 10 ^ 21)"
    unfolding buf by (simp add: list_all_iff)
  from csv_export_format [OF h1' h2 h3, of noExponent] obtain csv where
    a: "saveRecordingAsCSV noExponent recordedState = Some csv"
    and b: "splitOn (CHR 0x0A) csv =
             csvHeader (length (objects (hd (recordingData recordedState)))) #
             map (csvRow noExponent) (recordingData recordedState)"
    and c: "splitOn (CHR '','') (csvHeader (length (objects (hd (recordingData recordedState))))) =
             headerColumns (length (objects (hd (recordingData recordedState))))"
    and d: "\<forall>fr \<in> set (recordingData recordedState).
              splitOn (CHR '','') (csvRow noExponent fr) =
                toFixed noExponent 3 (timestamp fr) # map (toFixed noExponent 6) (frameNumbers fr) \<and>
              length (frameNumbers fr) = 3 + 7 * length (objects fr) \<and>
              isFixedDecimal 3 (toFixed noExponent 3 (timestamp fr)) \<and>
              (\<forall>v \<in> set (frameNumbers fr). isFixedDecimal 6 (toFixed noExponent 6 v))"
    by blast
  from a export_example have csv: "csv = exampleCsv" by simp
  have lines: "splitOn (CHR 0x0A) exampleCsv = [csvHeader 1, csvRow noExponent ?fr]"
    using b [unfolded csv n1] unfolding buf by (simp only: list.map)
  have cols: "splitOn (CHR '','') (csvHeader 1) = headerColumns 1"
    using c unfolding n1 .
  have "?fr \<in> set (recordingData recordedState)" unfolding buf by simp
  with d have row: "splitOn (CHR '','') (csvRow noExponent ?fr) =
                toFixed noExponent 3 (timestamp ?fr) # map (toFixed noExponent 6) (frameNumbers ?fr)"
    and d3: "isFixedDecimal 3 (toFixed noExponent 3 (timestamp ?fr))"
    and d6: "\<forall>v \<in> set (frameNumbers ?fr). isFixedDecimal 6 (toFixed noExponent 6 v)"
    by blast+
  have f: "toFixed noExponent 3 (timestamp ?fr) # map (toFixed noExponent 6) (frameNumbers ?fr) =
     [''0.000'', ''0.250000'', ''0.000000'', ''0.760000'', ''0.350000'', ''-0.066667'', ''0.760000'',
      ''0.000000'', ''0.000000'', ''0.600000'', ''0.800000'']"
    unfolding nums ts by (simp add: toFixed_eval)
  have hc: "headerColumns 1 =
     [''Timestamp'', ''RobotArm_X'', ''RobotArm_Y'', ''RobotArm_Z'', ''Object1_Pos_X'', ''Object1_Pos_Y'',
      ''Object1_Pos_Z'', ''Object1_Rot_X'', ''Object1_Rot_Y'', ''Object1_Rot_Z'', ''Object1_Rot_W'']"
    by (simp add: headerColumns_def objectColumns_def digitsOf_small digitChar_def)
  have e3: "isFixedDecimal 3 ''0.000''" using d3 f by simp
  have "- (1 / 15) \<in> set (frameNumbers ?fr)" unfolding nums by simp
  with d6 have "isFixedDecimal 6 (toFixed noExponent 6 (- (1 / 15)))" by blast
  then have e6: "isFixedDecimal 6 ''-0.066667''" unfolding toFixed_example .
  have cols': "splitOn (CHR '','') (csvHeader 1) =
     [''Timestamp'', ''RobotArm_X'', ''RobotArm_Y'', ''RobotArm_Z'', ''Object1_Pos_X'', ''Object1_Pos_Y'',
      ''Object1_Pos_Z'', ''Object1_Rot_X'', ''Object1_Rot_Y'', ''Object1_Rot_Z'', ''Object1_Rot_W'']"
    using cols hc by (rule trans)
  have row': "splitOn (CHR '','') (csvRow noExponent ?fr) =
     [''0.000'', ''0.250000'', ''0.000000'', ''0.760000'', ''0.350000'', ''-0.066667'', ''0.760000'',
      ''0.000000'', ''0.000000'', ''0.600000'', ''0.800000'']"
    using row f by (rule trans)
  show ?thesis
    by (intro conjI) (fact h1' buf small export_example lines cols' row' e3 e6)+
qed

section \<open>Round trip of the normalizer\<close>

lemma fl_exact_arithmetic:
  "normalizeCoordinates_fl (\<lambda>r. r) x y z = normalizeCoordinates x y z \<and>
   denormalizeCoordinates_fl (\<lambda>r. r) nx ny = denormalizeCoordinates nx ny"
  by (simp add: normalizeCoordinates_fl_def normalizeCoordinates_def denormalizeCoordinates_fl_def
      denormalizeCoordinates_def)

lemma prod_err:
  fixes a b a' b' :: real
  assumes "\<bar>a - a'\<bar> \<le> da" and "\<bar>b - b'\<bar> \<le> db" and "\<bar>a\<bar> \<le> A" and "\<bar>b'\<bar> \<le> B"
  shows "\<bar>a * b - a' * b'\<bar> \<le> A * db + da * B"
proof -
  have eq: "a * b - a' * b' = a * (b - b') + (a - a') * b'" by (simp add: algebra_simps)
  have 1: "\<bar>a * (b - b')\<bar> \<le> A * db"
    unfolding abs_mult using assms(2,3) by (intro mult_mono) auto
  have 2: "\<bar>(a - a') * b'\<bar> \<le> da * B"
    unfolding abs_mult using assms(1,4) by (intro mult_mono) auto
  have "\<bar>a * (b - b') + (a - a') * b'\<bar> \<le> \<bar>a * (b - b')\<bar> + \<bar>(a - a') * b'\<bar>"
    by (rule abs_triangle_ineq)
  with 1 2 show ?thesis unfolding eq by linarith
qed

lemma quot_err:
  fixes b w t c d :: real
  assumes "0 < c" and "c \<le> w" and "\<bar>b - t * w\<bar> \<le> d"
  shows "\<bar>b / w - t\<bar> \<le> d / c"
proof -
  have w: "0 < w" using assms(1,2) by linarith
  then have eq: "b / w - t = (b - t * w) / w" by (simp add: field_simps)
  have "\<bar>(b - t * w) / w\<bar> = \<bar>b - t * w\<bar> / w" using w by simp
  also have "\<dots> \<le> d / w" using assms(3) w by (simp add: divide_right_mono)
  also have "\<dots> \<le> d / c"
  proof -
    have "0 \<le> d" using assms(3) by linarith
    then show ?thesis using assms(1,2) by (intro divide_left_mono) auto
  qed
  finally show ?thesis unfolding eq .
qed

lemma clamp_err:
  fixes lo hi a v L H d :: real
  assumes "\<bar>lo - L\<bar> \<le> d" and "\<bar>hi - H\<bar> \<le> d" and "\<bar>a - v\<bar> \<le> d" and "L \<le> v" and "v \<le> H"
  shows "\<bar>max lo (min hi a) - v\<bar> \<le> d"
  using assms by linarith

lemma axis_round_trip:
  fixes rnd :: "real \<Rightarrow> real" and e x lo hi w L W :: real
  assumes R: "\<And>r. \<bar>r\<bar> \<le> 16 \<Longrightarrow> \<bar>rnd r - r\<bar> \<le> e"
    and e: "0 \<le> e" "e \<le> 1 / 1000000000"
    and x: "- 3 \<le> x" "x \<le> 3"
    and lo: "\<bar>lo - L\<bar> \<le> e" and hi: "\<bar>hi - (L + W)\<bar> \<le> e" and w: "\<bar>w - W\<bar> \<le> 3 * e"
    and W: "1 / 5 \<le> W" "W \<le> 2 / 5" and L: "\<bar>L\<bar> \<le> 1 / 5"
  shows "\<bar>rnd (rnd (rnd (rnd (max lo (min hi (rnd (lo + rnd (rnd (rnd (x + 3) / 6) * w)))) - lo) / w) * 6) - 3) - x\<bar>
           \<le> 500 * e"
proof -
  define t where "t = (x + 3) / 6"
  have t: "0 \<le> t" "t \<le> 1" using x by (simp_all add: t_def)
  define a1 where "a1 = rnd (x + 3)"
  have a1: "\<bar>a1 - (x + 3)\<bar> \<le> e" unfolding a1_def using x by (intro R) linarith
  define a2 where "a2 = rnd (a1 / 6)"
  have "\<bar>a2 - a1 / 6\<bar> \<le> e" unfolding a2_def using a1 x e by (intro R) linarith
  with a1 e have a2: "\<bar>a2 - t\<bar> \<le> 2 * e" unfolding t_def by argo
  have a2b: "\<bar>a2\<bar> \<le> 2" using a2 t e by linarith
  have Wb: "\<bar>W\<bar> \<le> 2 / 5" using W by linarith
  define a3 where "a3 = rnd (a2 * w)"
  have pe: "\<bar>a2 * w - t * W\<bar> \<le> 2 * (3 * e) + 2 * e * (2 / 5)"
    using prod_err [OF a2 w a2b Wb] .
  have tW: "0 \<le> t * W" "t * W \<le> 2 / 5"
  proof -
    show "0 \<le> t * W" using t W by simp
    have "t * W \<le> 1 * (2 / 5)" using t W by (intro mult_mono) auto
    then show "t * W \<le> 2 / 5" by simp
  qed
  have "\<bar>a3 - a2 * w\<bar> \<le> e" unfolding a3_def using pe tW e by (intro R) linarith
  with pe have a3: "\<bar>a3 - t * W\<bar> \<le> 8 * e" using e by linarith
  define a4 where "a4 = rnd (lo + a3)"
  have "\<bar>a4 - (lo + a3)\<bar> \<le> e" unfolding a4_def using a3 lo L tW e by (intro R) linarith
  with a3 lo e have a4: "\<bar>a4 - (L + t * W)\<bar> \<le> 10 * e" by linarith
  define X where "X = max lo (min hi a4)"
  have X: "\<bar>X - (L + t * W)\<bar> \<le> 10 * e"
    unfolding X_def
  proof (rule clamp_err)
    show "\<bar>lo - L\<bar> \<le> 10 * e" using lo e by linarith
    show "\<bar>hi - (L + W)\<bar> \<le> 10 * e" using hi e by linarith
    show "\<bar>a4 - (L + t * W)\<bar> \<le> 10 * e" by (rule a4)
    show "L \<le> L + t * W" using tW by linarith
    have "t * W \<le> 1 * W" using t W by (intro mult_right_mono) auto
    then show "L + t * W \<le> L + W" by simp
  qed
  define b1 where "b1 = rnd (X - lo)"
  have "\<bar>b1 - (X - lo)\<bar> \<le> e" unfolding b1_def using X lo L tW e by (intro R) linarith
  with X lo e have b1: "\<bar>b1 - t * W\<bar> \<le> 12 * e" by linarith
  have tw: "\<bar>t * w - t * W\<bar> \<le> 1 * (3 * e) + 0 * (2 / 5)"
  proof -
    have "\<bar>t - t\<bar> \<le> 0" by simp
    moreover have "\<bar>t\<bar> \<le> 1" using t by linarith
    ultimately show ?thesis using w Wb by (intro prod_err) auto
  qed
  with b1 e have num: "\<bar>b1 - t * w\<bar> \<le> 15 * e" by linarith
  have wlow: "19 / 100 \<le> w" using w W e by linarith
  have q: "\<bar>b1 / w - t\<bar> \<le> 15 * e / (19 / 100)"
    by (rule quot_err [OF _ wlow num]) simp
  have q': "\<bar>b1 / w - t\<bar> \<le> 80 * e" using q e by (simp add: field_simps)
  define b2 where "b2 = rnd (b1 / w)"
  have "\<bar>b2 - b1 / w\<bar> \<le> e" unfolding b2_def using q' t e by (intro R) linarith
  with q' e have b2: "\<bar>b2 - t\<bar> \<le> 81 * e" by linarith
  define b3 where "b3 = rnd (b2 * 6)"
  have "\<bar>b3 - b2 * 6\<bar> \<le> e" unfolding b3_def using b2 t e by (intro R) linarith
  with b2 e have b3: "\<bar>b3 - 6 * t\<bar> \<le> 487 * e" by linarith
  define b4 where "b4 = rnd (b3 - 3)"
  have "\<bar>b4 - (b3 - 3)\<bar> \<le> e" unfolding b4_def using b3 t e by (intro R) linarith
  with b3 e have "\<bar>b4 - (6 * t - 3)\<bar> \<le> 488 * e" by linarith
  moreover have "6 * t - 3 = x" unfolding t_def by argo
  ultimately have "\<bar>b4 - x\<bar> \<le> 500 * e" using e by linarith
  then show ?thesis
    unfolding b4_def b3_def b2_def b1_def X_def a4_def a3_def a2_def a1_def .
qed

lemma normalize_exact:
  assumes "- 3 \<le> x" and "x \<le> 3" and "- 3 \<le> z" and "z \<le> 3"
  shows "denormalizeCoordinates (fst (normalizeCoordinates x y z)) (snd (normalizeCoordinates x y z)) = (x, z)"
proof -
  have nx: "fst (normalizeCoordinates x y z) = 2 / 10 + ((x + 3) / 6) * (4 / 10 - 2 / 10)"
    using assms(1,2) by (simp add: normalizeCoordinates_def Let_def max_def min_def)
  have ny: "snd (normalizeCoordinates x y z) = - (2 / 10) + ((z + 3) / 6) * (2 / 10 - (- (2 / 10)))"
    using assms(3,4) by (simp add: normalizeCoordinates_def Let_def max_def min_def)
  show ?thesis unfolding nx ny by (simp add: denormalizeCoordinates_def Let_def add_divide_distrib)
qed

text \<open>
  C1. Round trip of the coordinate normalizer: for every simulation point \<open>(x, z)\<close> with
  \<open>x\<close> and \<open>z\<close> in \<open>[-3, 3]\<close>, \<^verbatim>\<open>denormalizeCoordinates\<close> applied to the pair returned by
  \<^verbatim>\<open>normalizeCoordinates(x, _, z)\<close> yields \<open>(x, z)\<close> again within \<open>10\<^sup>-\<^sup>6\<close>. This holds
  for the floating-point reading of the two functions under every rounding that is off by
  at most \<open>2\<^sup>-\<^sup>5\<^sup>0\<close> on results of magnitude at most 16, as binary64 arithmetic is; over
  the real numbers the round trip is exact.
\<close>

theorem normalize_round_trip:
  assumes "rounds_within rnd" and "- 3 \<le> x" and "x \<le> 3" and "- 3 \<le> z" and "z \<le> 3"
  shows "\<bar>fst (denormalizeCoordinates_fl rnd (fst (normalizeCoordinates_fl rnd x y z))
                (snd (normalizeCoordinates_fl rnd x y z))) - x\<bar> \<le> 1 / 10 ^ 6 \<and>
         \<bar>snd (denormalizeCoordinates_fl rnd (fst (normalizeCoordinates_fl rnd x y z))
                (snd (normalizeCoordinates_fl rnd x y z))) - z\<bar> \<le> 1 / 10 ^ 6 \<and>
         denormalizeCoordinates (fst (normalizeCoordinates x y z)) (snd (normalizeCoordinates x y z)) = (x, z)"
proof -
  define e :: real where "e = 1 / 2 ^ 50"
  have R: "\<bar>rnd r - r\<bar> \<le> e" if "\<bar>r\<bar> \<le> 16" for r
    using assms(1) that by (simp add: rounds_within_def e_def)
  have e: "0 \<le> e" "e \<le> 1 / 1000000000" by (simp_all add: e_def)
  have small: "500 * e \<le> 1 / 10 ^ 6" by (simp add: e_def)
  define c2 where "c2 = rnd (2 / 10)"
  define c4 where "c4 = rnd (4 / 10)"
  have c2: "\<bar>c2 - 1 / 5\<bar> \<le> e" unfolding c2_def using R [of "2 / 10"] by simp
  have c4: "\<bar>c4 - 2 / 5\<bar> \<le> e" unfolding c4_def using R [of "4 / 10"] by simp
  define d where "d = rnd (c4 - c2)"
  have "\<bar>d - (c4 - c2)\<bar> \<le> e" unfolding d_def using c2 c4 e by (intro R) linarith
  with c2 c4 have d: "\<bar>d - 1 / 5\<bar> \<le> 3 * e" by linarith
  define w where "w = rnd (c2 - (- c2))"
  have "\<bar>w - (c2 - (- c2))\<bar> \<le> e" unfolding w_def using c2 e by (intro R) linarith
  with c2 have w: "\<bar>w - 2 / 5\<bar> \<le> 3 * e" by linarith
  have X: "\<bar>rnd (rnd (rnd (rnd (max c2 (min c4 (rnd (c2 + rnd (rnd (rnd (x + 3) / 6) * d)))) - c2) / d) * 6) - 3) - x\<bar>
             \<le> 500 * e"
    using c2 c4 d by (intro axis_round_trip [where L = "1 / 5" and W = "1 / 5"] R e assms) simp_all
  have Z: "\<bar>rnd (rnd (rnd (rnd (max (- c2) (min c2 (rnd (- c2 + rnd (rnd (rnd (z + 3) / 6) * w)))) - (- c2)) / w) * 6) - 3) - z\<bar>
             \<le> 500 * e"
    using c2 w by (intro axis_round_trip [where L = "- (1 / 5)" and W = "2 / 5"] R e assms) simp_all
  have fx: "fst (denormalizeCoordinates_fl rnd (fst (normalizeCoordinates_fl rnd x y z))
                (snd (normalizeCoordinates_fl rnd x y z))) =
            rnd (rnd (rnd (rnd (max c2 (min c4 (rnd (c2 + rnd (rnd (rnd (x + 3) / 6) * d)))) - c2) / d) * 6) - 3)"
    by (simp add: denormalizeCoordinates_fl_def normalizeCoordinates_fl_def Let_def c2_def c4_def d_def)
  have fz: "snd (denormalizeCoordinates_fl rnd (fst (normalizeCoordinates_fl rnd x y z))
                (snd (normalizeCoordinates_fl rnd x y z))) =
            rnd (rnd (rnd (rnd (max (- c2) (min c2 (rnd (- c2 + rnd (rnd (rnd (z + 3) / 6) * w)))) - (- c2)) / w) * 6) - 3)"
    by (simp add: denormalizeCoordinates_fl_def normalizeCoordinates_fl_def Let_def c2_def w_def)
  from X Z small normalize_exact [OF assms(2-5)] show ?thesis
    unfolding fx fz by (intro conjI) linarith+
qed

lemma rnd52_rounds: "rounds_within rnd52"
proof -
  have "\<bar>rnd52 r - r\<bar> \<le> 1 / 2 ^ 50" for r
  proof -
    define D where "D = real_of_int \<lfloor>r * 2 ^ 52 + 1 / 2\<rfloor> - r * 2 ^ 52"
    have D: "\<bar>D\<bar> \<le> 1 / 2" unfolding D_def by linarith
    have eq: "rnd52 r - r = D / 2 ^ 52"
      by (simp add: rnd52_def D_def field_simps)
    have "\<bar>D / 2 ^ 52\<bar> = \<bar>D\<bar> / 2 ^ 52" by simp
    also have "\<dots> \<le> (1 / 2) / 2 ^ 52" using D by (intro divide_right_mono) simp_all
    also have "\<dots> \<le> 1 / 2 ^ 50" by simp
    finally show ?thesis unfolding eq .
  qed
  then show ?thesis by (simp add: rounds_within_def)
qed

theorem normalize_round_trip_witness:
  "rounds_within rnd52 \<and> - 3 \<le> (1 :: real) \<and> (1 :: real) \<le> 3 \<and> - 3 \<le> (- 2 :: real) \<and> (- 2 :: real) \<le> 3 \<and>
   \<bar>fst (denormalizeCoordinates_fl rnd52 (fst (normalizeCoordinates_fl rnd52 1 (3 / 10) (- 2)))
           (snd (normalizeCoordinates_fl rnd52 1 (3 / 10) (- 2)))) - 1\<bar> \<le> 1 / 10 ^ 6 \<and>
   \<bar>snd (denormalizeCoordinates_fl rnd52 (fst (normalizeCoordinates_fl rnd52 1 (3 / 10) (- 2)))
           (snd (normalizeCoordinates_fl rnd52 1 (3 / 10) (- 2)))) - (- 2)\<bar> \<le> 1 / 10 ^ 6 \<and>
   normalizeCoordinates 1 (3 / 10) (- 2) = (1 / 3, - (2 / 15)) \<and>
   denormalizeCoordinates (1 / 3) (- (2 / 15)) = (1, - 2)"
proof -
  have h: "- 3 \<le> (1 :: real)" "(1 :: real) \<le> 3" "- 3 \<le> (- 2 :: real)" "(- 2 :: real) \<le> 3"
    by simp_all
  have n: "normalizeCoordinates 1 (3 / 10) (- 2) = (1 / 3, - (2 / 15))"
    by (simp add: normalizeCoordinates_def Let_def)
  have d: "denormalizeCoordinates (1 / 3) (- (2 / 15)) = (1, - 2)"
    by (simp add: denormalizeCoordinates_def Let_def)
  from normalize_round_trip [OF rnd52_rounds h, of "3 / 10"] rnd52_rounds h n d
  show ?thesis by (intro conjI) blast+
qed

end
